theory Spec2Isabelle
  imports Complex_Main "HOL-Library.Multiset"
begin

section \<open>Data model of \<^verbatim>\<open>pairwise-ranker.ts\<close>\<close>

text \<open>
  The engine is one class, \<^verbatim>\<open>PairwiseRanker\<close>, whose fields are a plain object used
  as a dictionary (\<^verbatim>\<open>items\<close>), the de-duplicated input (\<^verbatim>\<open>_initialItems\<close>), the list of
  all pairs, a \<^verbatim>\<open>Set\<close> of pair keys and the options. The embedding keeps these
  fields. Numbers are idealised: a JavaScript \<^verbatim>\<open>number\<close> is a \<^typ>\<open>real\<close> (the data model of
  the specification says "real number"), so rounding, infinities and NaN are outside
  the model; a counter is a \<^typ>\<open>nat\<close>. A string is a \<^typ>\<open>string\<close>, compared code unit by
  code unit as \<^verbatim>\<open>Array.prototype.sort\<close> does without a comparator. With a comparator
  \<^verbatim>\<open>Array.prototype.sort\<close> is a stable sort (ECMAScript 2019), here \<^const>\<open>sort_key\<close>.
\<close>

record RankingResult =
  item :: string
  score :: real
  rank :: nat
  confidence :: real

record ItemData =
  item :: string
  score :: real
  confidence :: real
  comparisons :: nat

record Pair =
  itemA :: string
  itemB :: string

text \<open>
  \<^verbatim>\<open>PairwiseRankerOptions\<close> has optional fields; \<^verbatim>\<open>Required<PairwiseRankerOptions>\<close> is
  what the session stores. An absent field is \<^term>\<open>None\<close>.
\<close>

record PairwiseRankerOptions =
  confidenceThreshold_opt :: "real option"
  lowComparisonWeight_opt :: "real option"
  confidenceWeight_opt :: "real option"
  proximityWeight_opt :: "real option"
  kFactor_opt :: "real option"

record RequiredOptions =
  confidenceThreshold :: real
  lowComparisonWeight :: real
  confidenceWeight :: real
  proximityWeight :: real
  kFactor :: real

text \<open>
  The object \<^verbatim>\<open>this.items\<close> is created by \<^verbatim>\<open>{}\<close>, so it inherits from
  \<^verbatim>\<open>Object.prototype\<close>. Its own properties are kept in creation order in \<open>items\<close>. The
  assignment \<^verbatim>\<open>this.items[k] = v\<close> with \<^verbatim>\<open>k = "__proto__"\<close> does not create an own
  property: it runs the setter of \<^verbatim>\<open>Object.prototype.__proto__\<close> and makes \<^verbatim>\<open>v\<close> the
  prototype of the object. \<open>items_proto\<close> is that prototype when it is an item record,
  and \<^term>\<open>None\<close> while it is still \<^verbatim>\<open>Object.prototype\<close>. A \<^verbatim>\<open>Set<string>\<close> is the
  list of its elements in insertion order, without repetition.
\<close>

record PairwiseRanker =
  items :: "(string \<times> ItemData) list"
  items_proto :: "ItemData option"
  initialItems :: "string list"
  allPairs :: "Pair list"
  comparedPairs :: "string list"
  options :: RequiredOptions

datatype error = InvalidInput | UnknownItem | SameItem

text \<open>
  How a call of \<^verbatim>\<open>submitComparison\<close> ends. \<open>Throws e s\<close>: the error \<open>e\<close> is raised, and \<open>s\<close>
  is the state at that moment. \<open>Returns s\<close>: the call returns with state \<open>s\<close>.
  \<open>Unguarded\<close>: both identifiers passed the guard of line 97, the pair is new, and at
  least one of \<^verbatim>\<open>winnerData\<close>, \<^verbatim>\<open>loserData\<close> is not an item record but a value found on the
  prototype chain. No \<^verbatim>\<open>UnknownItem\<close> is raised: the update computes with \<^verbatim>\<open>undefined\<close>
  fields (NaN) and writes them to the record of the other identifier and to that
  value (a write to a primitive value raises a \<^verbatim>\<open>TypeError\<close> in strict code). The
  real-number model does not follow the call further.
\<close>

datatype completion = Throws error PairwiseRanker | Returns PairwiseRanker | Unguarded

section \<open>Strings, property lookup and the pair key\<close>

text \<open>\<^verbatim>\<open>x < y\<close> on strings: lexicographic on code units, a proper prefix first.\<close>

fun js_less :: "string \<Rightarrow> string \<Rightarrow> bool" where
  "js_less [] [] = False"
| "js_less [] (y # ys) = True"
| "js_less (x # xs) [] = False"
| "js_less (x # xs) (y # ys) = ((of_char x :: nat) < of_char y \<or> (x = y \<and> js_less xs ys))"

text \<open>
  \<^verbatim>\<open>[itemA, itemB].sort().join('||')\<close>: the sort is stable, so the two strings are
  swapped exactly when the second is smaller than the first.
\<close>

definition getPairKey :: "string \<Rightarrow> string \<Rightarrow> string" where
  "getPairKey a b = (if js_less b a then b @ ''||'' @ a else a @ ''||'' @ b)"

text \<open>The names of the properties of \<^verbatim>\<open>Object.prototype\<close>; each holds a function, but
  \<^verbatim>\<open>__proto__\<close>, an accessor that yields the prototype of the receiver.\<close>

definition Object_prototype :: "string list" where
  "Object_prototype =
     [''constructor'', ''hasOwnProperty'', ''isPrototypeOf'', ''propertyIsEnumerable'',
      ''toLocaleString'', ''toString'', ''valueOf'', ''__proto__'',
      ''__defineGetter__'', ''__defineSetter__'', ''__lookupGetter__'', ''__lookupSetter__'']"

text \<open>
  The value of \<^verbatim>\<open>this.items[k]\<close>, as far as the code tells values apart: an item
  record, another value that is truthy (a function, an object, a non-empty string, a
  number other than 0), or a falsy one (\<^verbatim>\<open>undefined\<close>, 0, the empty string).
\<close>

datatype jsvalue = Record ItemData | Truthy | Falsy

definition lookup :: "PairwiseRanker \<Rightarrow> string \<Rightarrow> jsvalue" where
  "lookup s k =
     (case map_of (items s) k of
        Some d \<Rightarrow> Record d
      | None \<Rightarrow>
          (case items_proto s of
             None \<Rightarrow> if k \<in> set Object_prototype then Truthy else Falsy
           | Some p \<Rightarrow>
               if k = ''__proto__'' then Record p
               else if k = ''item'' then (if ItemData.item p = [] then Falsy else Truthy)
               else if k = ''score'' then (if ItemData.score p = 0 then Falsy else Truthy)
               else if k = ''confidence'' then (if ItemData.confidence p = 0 then Falsy else Truthy)
               else if k = ''comparisons'' then (if comparisons p = 0 then Falsy else Truthy)
               else if k \<in> set Object_prototype then Truthy else Falsy))"

text \<open>\<^verbatim>\<open>this.items[k] = d\<close>, on the pair of the own properties and the prototype.\<close>

definition assign ::
  "(string \<times> ItemData) list \<times> ItemData option \<Rightarrow> string \<Rightarrow> ItemData \<Rightarrow>
   (string \<times> ItemData) list \<times> ItemData option" where
  "assign obj k d =
     (if k = ''__proto__'' then (fst obj, Some d)
      else if k \<in> fst ` set (fst obj)
        then (map (\<lambda>e. if fst e = k then (k, d) else e) (fst obj), snd obj)
      else (fst obj @ [(k, d)], snd obj))"

text \<open>
  Writing the fields of the record object that \<^verbatim>\<open>this.items[k]\<close> refers to: an own
  property, or else the prototype.
\<close>

definition put :: "PairwiseRanker \<Rightarrow> string \<Rightarrow> ItemData \<Rightarrow> PairwiseRanker" where
  "put s k d =
     (if k \<in> fst ` set (items s)
        then s\<lparr>items := map (\<lambda>e. if fst e = k then (k, d) else e) (items s)\<rparr>
      else s\<lparr>items_proto := Some d\<rparr>)"

text \<open>
  \<^verbatim>\<open>Object.values(this.items)\<close>: the own properties whose key is an array index (a
  canonical decimal numeral below \<open>2\<^sup>3\<^sup>2 - 1\<close>) come first, in ascending numeric
  order, then the other keys in creation order. The prototype is not among them.
\<close>

definition is_digit :: "char \<Rightarrow> bool" where
  "is_digit c = (48 \<le> (of_char c :: nat) \<and> (of_char c :: nat) \<le> 57)"

definition digits_value :: "string \<Rightarrow> nat" where
  "digits_value k = foldl (\<lambda>n c. 10 * n + (of_char c - 48)) 0 k"

definition is_array_index :: "string \<Rightarrow> bool" where
  "is_array_index k =
     (k \<noteq> [] \<and> list_all is_digit k \<and> (length k = 1 \<or> hd k \<noteq> CHR ''0'')
      \<and> digits_value k < 4294967295)"

definition Object_values :: "(string \<times> ItemData) list \<Rightarrow> ItemData list" where
  "Object_values own =
     map snd (sort_key (\<lambda>e. digits_value (fst e)) (filter (\<lambda>e. is_array_index (fst e)) own)
              @ filter (\<lambda>e. \<not> is_array_index (fst e)) own)"

section \<open>Construction and reset\<close>

text \<open>\<^verbatim>\<open>[...new Set(items)]\<close>: each element once, in the order of first occurrence.\<close>

definition Set_add :: "'a \<Rightarrow> 'a list \<Rightarrow> 'a list" where
  "Set_add x xs = (if x \<in> set xs then xs else xs @ [x])"

definition new_Set :: "'a list \<Rightarrow> 'a list" where
  "new_Set xs = fold Set_add xs []"

definition fresh :: "string \<Rightarrow> ItemData" where
  "fresh k = \<lparr>item = k, score = 1200, confidence = 0, comparisons = 0\<rparr>"

text \<open>The two nested loops of \<^verbatim>\<open>reset\<close> that push onto \<^verbatim>\<open>allPairs\<close>.\<close>

definition build_allPairs :: "string list \<Rightarrow> Pair list" where
  "build_allPairs xs =
     fold (\<lambda>i acc. fold (\<lambda>j acc'. acc' @ [\<lparr>itemA = xs ! i, itemB = xs ! j\<rparr>])
                        [Suc i..<length xs] acc)
          [0..<length xs] []"

definition reset :: "PairwiseRanker \<Rightarrow> PairwiseRanker" where
  "reset s =
     (let obj = fold (\<lambda>k acc. assign acc k (fresh k)) (initialItems s) ([], None)
      in s\<lparr>items := fst obj, items_proto := snd obj,
            allPairs := build_allPairs (initialItems s), comparedPairs := []\<rparr>)"

definition with_defaults :: "PairwiseRankerOptions \<Rightarrow> RequiredOptions" where
  "with_defaults opts =
     \<lparr>confidenceThreshold = (case confidenceThreshold_opt opts of None \<Rightarrow> 9 / 10 | Some v \<Rightarrow> v),
      lowComparisonWeight = (case lowComparisonWeight_opt opts of None \<Rightarrow> 5 / 10 | Some v \<Rightarrow> v),
      confidenceWeight = (case confidenceWeight_opt opts of None \<Rightarrow> 3 / 10 | Some v \<Rightarrow> v),
      proximityWeight = (case proximityWeight_opt opts of None \<Rightarrow> 2 / 10 | Some v \<Rightarrow> v),
      kFactor = (case kFactor_opt opts of None \<Rightarrow> 32 | Some v \<Rightarrow> v)\<rparr>"

text \<open>
  The constructor. The length test of line 45 reads the list as given, before line 48
  removes the duplicates. \<open>constructor_warns\<close> is the condition of \<^verbatim>\<open>console.warn\<close>.
\<close>

definition constructor :: "string list \<Rightarrow> PairwiseRankerOptions \<Rightarrow> error + PairwiseRanker" where
  "constructor its opts =
     (if length its < 2 then Inl InvalidInput
      else Inr (reset \<lparr>items = [], items_proto = None, initialItems = new_Set its,
                       allPairs = [], comparedPairs = [], options = with_defaults opts\<rparr>))"

definition constructor_warns :: "string list \<Rightarrow> bool" where
  "constructor_warns its = (length (new_Set its) \<noteq> length its)"

definition no_options :: PairwiseRankerOptions where
  "no_options = \<lparr>confidenceThreshold_opt = None, lowComparisonWeight_opt = None,
                 confidenceWeight_opt = None, proximityWeight_opt = None, kFactor_opt = None\<rparr>"

section \<open>The update rule\<close>

text \<open>The new fields of a record after a comparison that moves its score by \<open>delta\<close>.\<close>

definition compared :: "ItemData \<Rightarrow> real \<Rightarrow> ItemData" where
  "compared d delta =
     d\<lparr>score := ItemData.score d + delta,
       comparisons := comparisons d + 1,
       confidence := 1 - 1 / (1 + real (comparisons d + 1))\<rparr>"

definition winnerExpected :: "ItemData \<Rightarrow> ItemData \<Rightarrow> real" where
  "winnerExpected winnerData loserData =
     1 / (1 + 10 powr ((ItemData.score loserData - ItemData.score winnerData) / 400))"

definition submitComparison :: "PairwiseRanker \<Rightarrow> string \<Rightarrow> string \<Rightarrow> completion" where
  "submitComparison s winner loser =
     (if lookup s winner = Falsy \<or> lookup s loser = Falsy then Throws UnknownItem s
      else if winner = loser then Throws SameItem s
      else if getPairKey winner loser \<in> set (comparedPairs s) then Returns s
      else
        (case (lookup s winner, lookup s loser) of
           (Record winnerData, Record loserData) \<Rightarrow>
             (let loserExpected = 1 - winnerExpected winnerData loserData;
                  w = compared winnerData
                        (kFactor (options s) * (1 - winnerExpected winnerData loserData));
                  l = compared loserData (kFactor (options s) * (0 - loserExpected))
              in Returns ((put (put s winner w) loser l)
                    \<lparr>comparedPairs := Set_add (getPairKey winner loser) (comparedPairs s)\<rparr>))
         | _ \<Rightarrow> Unguarded))"

section \<open>Queries\<close>

text \<open>
  \<^verbatim>\<open>Math.min(...scores)\<close> and \<^verbatim>\<open>Math.max(...scores)\<close>. Of no scores they are
  \<open>+\<infinity>\<close> and \<open>-\<infinity>\<close>, and \<^verbatim>\<open>scoreRange\<close> is \<open>-\<infinity>\<close>: the test \<^verbatim>\<open>scoreRange > 0\<close> fails.
\<close>

definition minScore :: "real list \<Rightarrow> real" where
  "minScore scores = Min (set scores)"

definition maxScore :: "real list \<Rightarrow> real" where
  "maxScore scores = Max (set scores)"

definition scoreRange_positive :: "real list \<Rightarrow> bool" where
  "scoreRange_positive scores = (scores \<noteq> [] \<and> maxScore scores - minScore scores > 0)"

definition normalizedScore :: "real list \<Rightarrow> real \<Rightarrow> real" where
  "normalizedScore scores x = (x - minScore scores) / (maxScore scores - minScore scores)"

definition getRankings :: "PairwiseRanker \<Rightarrow> RankingResult list" where
  "getRankings s =
     (let itemData = Object_values (items s);
          scores = map ItemData.score itemData;
          rankedItems =
            map (\<lambda>d. \<lparr>RankingResult.item = ItemData.item d,
                       RankingResult.score =
                         (if scoreRange_positive scores then normalizedScore scores (ItemData.score d)
                          else 1 / 2),
                       rank = 0,
                       RankingResult.confidence = ItemData.confidence d\<rparr>) itemData;
          sorted = sort_key (\<lambda>r. - RankingResult.score r) rankedItems
      in map (\<lambda>e. (fst e)\<lparr>rank := snd e + 1\<rparr>) (zip sorted [0..<length sorted]))"

definition isSessionComplete :: "PairwiseRanker \<Rightarrow> bool" where
  "isSessionComplete s =
     (if length (comparedPairs s) = length (allPairs s) then True
      else list_all (\<lambda>d. ItemData.confidence d \<ge> confidenceThreshold (options s))
             (Object_values (items s)))"

text \<open>
  The score of one candidate pair in \<^verbatim>\<open>getNextMatches\<close>. \<^term>\<open>None\<close>: an identifier of
  the pair names no item record, so reading its fields raises a \<^verbatim>\<open>TypeError\<close> or gives
  \<^verbatim>\<open>undefined\<close>.
\<close>

definition pairScore :: "PairwiseRanker \<Rightarrow> Pair \<Rightarrow> real option" where
  "pairScore s pair =
     (case (lookup s (itemA pair), lookup s (itemB pair)) of
        (Record a, Record b) \<Rightarrow>
          (let allScores = map ItemData.score (Object_values (items s));
               comparisonTerm = lowComparisonWeight (options s);
               avgItemConfidence = (ItemData.confidence a + ItemData.confidence b) / 2;
               confidenceTerm = confidenceWeight (options s) * (1 - avgItemConfidence);
               scoreDifference =
                 (if scoreRange_positive allScores
                  then \<bar>normalizedScore allScores (ItemData.score a)
                        - normalizedScore allScores (ItemData.score b)\<bar>
                  else 0);
               proximityTerm = proximityWeight (options s) * (1 / (1 + scoreDifference))
           in Some (comparisonTerm + confidenceTerm + proximityTerm))
      | _ \<Rightarrow> None)"

text \<open>\<^verbatim>\<open>xs.slice(0, n)\<close> for an integer \<open>n\<close>: a negative end counts from the end of the
  list. (A fractional \<open>n\<close> would be truncated towards zero first.)\<close>

definition slice0 :: "'a list \<Rightarrow> int \<Rightarrow> 'a list" where
  "slice0 xs n = (if n < 0 then take (nat (int (length xs) + n)) xs else take (nat n) xs)"

definition uncomparedPairs :: "PairwiseRanker \<Rightarrow> Pair list" where
  "uncomparedPairs s =
     filter (\<lambda>pair. getPairKey (itemA pair) (itemB pair) \<notin> set (comparedPairs s)) (allPairs s)"

definition getNextMatches :: "PairwiseRanker \<Rightarrow> int \<Rightarrow> Pair list option" where
  "getNextMatches s n =
     (if isSessionComplete s then Some []
      else if uncomparedPairs s = [] then Some []
      else
        (case those (map (\<lambda>pair. map_option (\<lambda>sc. (pair, sc)) (pairScore s pair))
                         (uncomparedPairs s)) of
           None \<Rightarrow> None
         | Some scoredPairs \<Rightarrow>
             Some (map fst (slice0 (sort_key (\<lambda>p. - snd p) scoredPairs) n))))"

text \<open>\<^verbatim>\<open>getNextMatches()\<close> without an argument: \<open>n\<close> is 10.\<close>

definition getNextMatches_default :: "PairwiseRanker \<Rightarrow> Pair list option" where
  "getNextMatches_default s = getNextMatches s 10"


section \<open>Sessions\<close>

text \<open>
  The states a host can bring a session to: construction, then any number of resets
  and of calls of \<open>submitComparison\<close> that return or raise an error. The queries compute
  a value from the state and do not change it. A call that ends \<open>Unguarded\<close> leads
  outside of the model.
\<close>

inductive reachable :: "PairwiseRanker \<Rightarrow> bool" where
  constructed: "constructor its opts = Inr s \<Longrightarrow> reachable s"
| after_reset: "reachable s \<Longrightarrow> reachable (reset s)"
| after_submit: "reachable s \<Longrightarrow> submitComparison s winner loser = Returns s' \<Longrightarrow> reachable s'"
| after_throw: "reachable s \<Longrightarrow> submitComparison s winner loser = Throws e s' \<Longrightarrow> reachable s'"

text \<open>The sum of the raw scores of all item records: the own properties and, when
  it is an item record, the prototype.\<close>

definition total_score :: "PairwiseRanker \<Rightarrow> real" where
  "total_score s =
     sum_list (map (\<lambda>e. ItemData.score (snd e)) (items s))
     + (case items_proto s of None \<Rightarrow> 0 | Some p \<Rightarrow> ItemData.score p)"

text \<open>
  What every reachable state satisfies. The rating store: the identifiers are
  distinct; the own properties are the identifiers other than \<^verbatim>\<open>__proto__\<close>, in order,
  each holding a record that carries its identifier; the prototype is a record
  exactly when \<^verbatim>\<open>__proto__\<close> is an identifier. The session: the pairs are those of the
  identifiers; the compared set holds keys of pairs only; and the scores sum to 1200
  per identifier.
\<close>

definition pair_key :: "Pair \<Rightarrow> string" where
  "pair_key pair = getPairKey (itemA pair) (itemB pair)"

definition store_inv :: "PairwiseRanker \<Rightarrow> bool" where
  "store_inv s =
     (distinct (initialItems s)
      \<and> map fst (items s) = filter (\<lambda>k. k \<noteq> ''__proto__'') (initialItems s)
      \<and> list_all (\<lambda>e. ItemData.item (snd e) = fst e) (items s)
      \<and> (case items_proto s of
            None \<Rightarrow> ''__proto__'' \<notin> set (initialItems s)
          | Some p \<Rightarrow> ''__proto__'' \<in> set (initialItems s) \<and> ItemData.item p = ''__proto__''))"

definition session_inv :: "PairwiseRanker \<Rightarrow> bool" where
  "session_inv s =
     (store_inv s
      \<and> allPairs s = build_allPairs (initialItems s)
      \<and> distinct (comparedPairs s)
      \<and> set (comparedPairs s) \<subseteq> pair_key ` set (allPairs s)
      \<and> total_score s = 1200 * real (length (initialItems s)))"

text \<open>A host that submits a list of comparisons, winner first, one after the other;
  it stops at the first call that does not return.\<close>

definition submitAll :: "PairwiseRanker \<Rightarrow> (string \<times> string) list \<Rightarrow> completion" where
  "submitAll s ps =
     fold (\<lambda>p c. case c of Returns t \<Rightarrow> submitComparison t (fst p) (snd p) | _ \<Rightarrow> c)
          ps (Returns s)"

section \<open>The words of the specification\<close>

text \<open>
  The record of an identifier, and the scoring formula as the specification words it:
  scores are normalised over the scores of all items by \<open>(score - min) / (max - min)\<close>,
  every normalised value being 0.5 when all scores are equal, and
  \<open>pairScore = lowComparisonWeight + confidenceWeight * (1 - avgConfidence(A, B))
  + proximityWeight * (1 / (1 + |normScore(A) - normScore(B)|))\<close>.
\<close>

definition record_of :: "PairwiseRanker \<Rightarrow> string \<Rightarrow> ItemData" where
  "record_of s k = (case lookup s k of Record d \<Rightarrow> d | _ \<Rightarrow> fresh k)"

definition spec_allScores :: "PairwiseRanker \<Rightarrow> real set" where
  "spec_allScores s = (\<lambda>k. ItemData.score (record_of s k)) ` set (initialItems s)"

definition spec_normScore :: "PairwiseRanker \<Rightarrow> string \<Rightarrow> real" where
  "spec_normScore s k =
     (if Max (spec_allScores s) = Min (spec_allScores s) then 1 / 2
      else (ItemData.score (record_of s k) - Min (spec_allScores s))
           / (Max (spec_allScores s) - Min (spec_allScores s)))"



section \<open>Example sessions\<close>

text \<open>\<^verbatim>\<open>new PairwiseRanker(['A', 'B'])\<close>, and the same session with \<^verbatim>\<open>{kFactor: 0}\<close>
  before and after \<^verbatim>\<open>submitComparison('A', 'B')\<close>.\<close>

definition session_AB :: PairwiseRanker where
  "session_AB =
     \<lparr>items = [(''A'', fresh ''A''), (''B'', fresh ''B'')], items_proto = None,
      initialItems = [''A'', ''B''],
      allPairs = [\<lparr>itemA = ''A'', itemB = ''B''\<rparr>], comparedPairs = [],
      options = with_defaults no_options\<rparr>"



text \<open>The session \<open>session_AB\<close> after \<^verbatim>\<open>submitComparison('A', 'B')\<close>.\<close>

definition session_AB_after :: PairwiseRanker where
  "session_AB_after =
     session_AB
       \<lparr>items := [(''A'', \<lparr>item = ''A'', score = 1216, confidence = 1 / 2, comparisons = 1\<rparr>),
                  (''B'', \<lparr>item = ''B'', score = 1184, confidence = 1 / 2, comparisons = 1\<rparr>)],
        comparedPairs := [''A||B'']\<rparr>"

text \<open>\<^verbatim>\<open>new PairwiseRanker(['a', 'a'])\<close>.\<close>

definition session_a :: PairwiseRanker where
  "session_a =
     \<lparr>items = [(''a'', fresh ''a'')], items_proto = None, initialItems = [''a''],
      allPairs = [], comparedPairs = [], options = with_defaults no_options\<rparr>"

text \<open>\<^verbatim>\<open>new PairwiseRanker(['a', 'b||c', 'a||b', 'c'])\<close>, and the six pairs of its universe
  in the order of \<^verbatim>\<open>allPairs\<close>.\<close>

definition session_bars :: PairwiseRanker where
  "session_bars =
     \<lparr>items = [(''a'', fresh ''a''), (''b||c'', fresh ''b||c''), (''a||b'', fresh ''a||b''),
               (''c'', fresh ''c'')],
      items_proto = None,
      initialItems = [''a'', ''b||c'', ''a||b'', ''c''],
      allPairs = [\<lparr>itemA = ''a'', itemB = ''b||c''\<rparr>, \<lparr>itemA = ''a'', itemB = ''a||b''\<rparr>,
                  \<lparr>itemA = ''a'', itemB = ''c''\<rparr>, \<lparr>itemA = ''b||c'', itemB = ''a||b''\<rparr>,
                  \<lparr>itemA = ''b||c'', itemB = ''c''\<rparr>, \<lparr>itemA = ''a||b'', itemB = ''c''\<rparr>],
      comparedPairs = [],
      options = with_defaults no_options\<rparr>"

definition pairs_bars :: "(string \<times> string) list" where
  "pairs_bars = [(''a'', ''b||c''), (''a'', ''a||b''), (''a'', ''c''), (''b||c'', ''a||b''),
                 (''b||c'', ''c''), (''a||b'', ''c'')]"

text \<open>\<^verbatim>\<open>new PairwiseRanker(['__proto__', 'a', 'b'])\<close>.\<close>

definition session_proto :: PairwiseRanker where
  "session_proto =
     \<lparr>items = [(''a'', fresh ''a''), (''b'', fresh ''b'')],
      items_proto = Some (fresh ''__proto__''),
      initialItems = [''__proto__'', ''a'', ''b''],
      allPairs = [\<lparr>itemA = ''__proto__'', itemB = ''a''\<rparr>, \<lparr>itemA = ''__proto__'', itemB = ''b''\<rparr>,
                  \<lparr>itemA = ''a'', itemB = ''b''\<rparr>],
      comparedPairs = [],
      options = with_defaults no_options\<rparr>"




section \<open>The pair key\<close>

lemma js_less_asym: "js_less a b \<Longrightarrow> \<not> js_less b a"
  by (induction a b rule: js_less.induct) auto

lemma js_less_total: "\<not> js_less a b \<Longrightarrow> \<not> js_less b a \<Longrightarrow> a = b"
proof (induction a b rule: js_less.induct)
  case (4 x xs y ys)
  from "4.prems" have "\<not> (of_char x :: nat) < of_char y" and "\<not> (of_char y :: nat) < of_char x"
    by auto
  then have "(of_char x :: nat) = of_char y" by linarith
  then have xy: "x = y" by simp
  with "4.prems" have "\<not> js_less xs ys" and "\<not> js_less ys xs" by auto
  with "4.IH" xy show ?case by simp
qed auto

lemma getPairKey_commute: "getPairKey a b = getPairKey b a"
proof (cases "js_less a b")
  case True
  then show ?thesis using js_less_asym [of a b] by (simp add: getPairKey_def)
next
  case False
  show ?thesis
  proof (cases "js_less b a")
    case True
    with False show ?thesis by (simp add: getPairKey_def)
  next
    case nba: False
    with False have "a = b" by (rule js_less_total)
    then show ?thesis by simp
  qed
qed

lemma join_inj:
  "a @ ''||'' @ b = c @ ''||'' @ d \<Longrightarrow> CHR ''|'' \<notin> set a \<Longrightarrow> CHR ''|'' \<notin> set c \<Longrightarrow> a = c \<and> b = d"
proof (induction a arbitrary: c)
  case Nil
  then show ?case by (cases c) auto
next
  case (Cons x a)
  then show ?case by (cases c) auto
qed

lemma getPairKey_inj:
  assumes "CHR ''|'' \<notin> set a" "CHR ''|'' \<notin> set b" "CHR ''|'' \<notin> set c" "CHR ''|'' \<notin> set d"
    and "getPairKey a b = getPairKey c d"
  shows "(a = c \<and> b = d) \<or> (a = d \<and> b = c)"
proof -
  obtain x y where xy: "getPairKey a b = x @ ''||'' @ y" "(x = a \<and> y = b) \<or> (x = b \<and> y = a)"
    by (cases "js_less b a") (simp_all add: getPairKey_def)
  obtain u v where uv: "getPairKey c d = u @ ''||'' @ v" "(u = c \<and> v = d) \<or> (u = d \<and> v = c)"
    by (cases "js_less d c") (simp_all add: getPairKey_def)
  from xy(2) assms(1,2) have "CHR ''|'' \<notin> set x" by auto
  moreover from uv(2) assms(3,4) have "CHR ''|'' \<notin> set u" by auto
  moreover from xy(1) uv(1) assms(5) have "x @ ''||'' @ y = u @ ''||'' @ v" by simp
  ultimately have "x = u \<and> y = v" by (intro join_inj)
  with xy(2) uv(2) show ?thesis by auto
qed

text \<open>
  Claim C5. The key of a pair does not depend on the order of its two identifiers
  (\<open>getPairKey_commute\<close>), and identifiers without the character \<open>|\<close> never share a
  key with another pair (\<open>getPairKey_inj\<close>). The separator is not kept out of the
  identifiers, though: the distinct pairs \<open>(a, b||c)\<close> and \<open>(a||b, c)\<close> have the same
  key.
\<close>

theorem getPairKey_collision:
  "getPairKey ''a'' ''b||c'' = ''a||b||c'' \<and> getPairKey ''a||b'' ''c'' = ''a||b||c''"
  by (simp add: getPairKey_def)

section \<open>Lookup and update of item records\<close>

lemma map_of_replace_same:
  "k \<in> fst ` set xs \<Longrightarrow> map_of (map (\<lambda>e. if fst e = k then (k, d) else e) xs) k = Some d"
  by (induction xs) auto

lemma map_of_replace_other:
  "k' \<noteq> k \<Longrightarrow> map_of (map (\<lambda>e. if fst e = k then (k, d) else e) xs) k' = map_of xs k'"
  by (induction xs) auto

lemma map_fst_replace:
  "map fst (map (\<lambda>e. if fst e = k then (k, d) else e) xs) = map fst xs"
  by (induction xs) auto

lemma map_of_None_iff: "(map_of xs k = None) = (k \<notin> fst ` set xs)"
  by (simp add: map_of_eq_None_iff)

text \<open>A record is found either among the own properties or, under the key
  \<^verbatim>\<open>__proto__\<close>, as the prototype.\<close>

lemma lookup_Record_cases:
  "lookup s k = Record d \<longleftrightarrow>
     map_of (items s) k = Some d
     \<or> (map_of (items s) k = None \<and> k = ''__proto__'' \<and> items_proto s = Some d)"
  by (auto simp: lookup_def split: option.splits)

lemma lookup_own: "map_of (items s) k = Some d \<Longrightarrow> lookup s k = Record d"
  by (simp add: lookup_def)

lemma lookup_same_store:
  "map_of (items s') k = map_of (items s) k \<Longrightarrow> items_proto s' = items_proto s
   \<Longrightarrow> lookup s' k = lookup s k"
  by (cases "map_of (items s) k") (simp_all add: lookup_def)

lemma put_own:
  "k \<in> fst ` set (items s) \<Longrightarrow>
     items (put s k d) = map (\<lambda>e. if fst e = k then (k, d) else e) (items s)
     \<and> items_proto (put s k d) = items_proto s"
  by (simp add: put_def)

lemma put_proto:
  "k \<notin> fst ` set (items s) \<Longrightarrow>
     items (put s k d) = items s \<and> items_proto (put s k d) = Some d"
  by (simp add: put_def)

lemma lookup_put_same:
  assumes "lookup s k = Record d0"
  shows "lookup (put s k d) k = Record d"
proof (cases "k \<in> fst ` set (items s)")
  case True
  then have "map_of (items (put s k d)) k = Some d"
    by (simp add: put_own map_of_replace_same)
  then show ?thesis by (rule lookup_own)
next
  case False
  then have none: "map_of (items s) k = None" by (simp add: map_of_None_iff)
  with assms have "k = ''__proto__''" by (simp add: lookup_Record_cases)
  with False none show ?thesis by (simp add: lookup_Record_cases put_proto)
qed

lemma lookup_put_other:
  assumes "k' \<noteq> k" and "lookup s k = Record d0" and "lookup s k' = Record d'"
  shows "lookup (put s k d) k' = Record d'"
proof (cases "k \<in> fst ` set (items s)")
  case True
  with assms(1) have "lookup (put s k d) k' = lookup s k'"
    by (intro lookup_same_store) (simp_all add: put_own map_of_replace_other)
  with assms(3) show ?thesis by simp
next
  case False
  then have none: "map_of (items s) k = None" by (simp add: map_of_None_iff)
  with assms(2) have k: "k = ''__proto__''" by (simp add: lookup_Record_cases)
  with assms(1,3) have "map_of (items s) k' = Some d'" by (simp add: lookup_Record_cases)
  with False have "map_of (items (put s k d)) k' = Some d'" by (simp add: put_proto)
  then show ?thesis by (rule lookup_own)
qed

lemma lookup_comparedPairs_update [simp]:
  "lookup (s\<lparr>comparedPairs := c\<rparr>) k = lookup s k"
  by (rule lookup_same_store) simp_all

lemma submitComparison_new_pair:
  assumes "lookup s W = Record w" and "lookup s L = Record l" and "W \<noteq> L"
    and "getPairKey W L \<notin> set (comparedPairs s)"
  shows "submitComparison s W L =
     Returns ((put (put s W (compared w (kFactor (options s) * (1 - winnerExpected w l))))
                   L (compared l (kFactor (options s) * (0 - (1 - winnerExpected w l)))))
              \<lparr>comparedPairs := comparedPairs s @ [getPairKey W L]\<rparr>)"
  unfolding submitComparison_def Let_def using assms by (simp add: Set_add_def)

lemma submitComparison_old_pair:
  assumes "lookup s W \<noteq> Falsy" and "lookup s L \<noteq> Falsy" and "W \<noteq> L"
    and "getPairKey W L \<in> set (comparedPairs s)"
  shows "submitComparison s W L = Returns s"
  using assms by (simp add: submitComparison_def)


text \<open>After the comparison of a new pair both records are the updated ones, whichever
  of them is an own property or the prototype, and the key is in the compared set.\<close>

lemma submitComparison_new_pair_effect:
  assumes "lookup s W = Record w" and "lookup s L = Record l" and "W \<noteq> L"
    and "getPairKey W L \<notin> set (comparedPairs s)"
  shows "\<exists>s'. submitComparison s W L = Returns s'
     \<and> lookup s' W = Record (compared w (kFactor (options s) * (1 - winnerExpected w l)))
     \<and> lookup s' L = Record (compared l (kFactor (options s) * (0 - (1 - winnerExpected w l))))
     \<and> getPairKey W L \<in> set (comparedPairs s')"
proof -
  let ?w = "compared w (kFactor (options s) * (1 - winnerExpected w l))"
  let ?l = "compared l (kFactor (options s) * (0 - (1 - winnerExpected w l)))"
  let ?s = "(put (put s W ?w) L ?l)\<lparr>comparedPairs := comparedPairs s @ [getPairKey W L]\<rparr>"
  have ret: "submitComparison s W L = Returns ?s"
    using assms(1-4) by (rule submitComparison_new_pair)
  have L1: "lookup (put s W ?w) L = Record l"
    using assms(1-3) by (intro lookup_put_other) auto
  have W1: "lookup (put s W ?w) W = Record ?w"
    using assms(1) by (rule lookup_put_same)
  have "lookup (put (put s W ?w) L ?l) W = Record ?w"
    using assms(3) L1 W1 by (rule lookup_put_other)
  then have W2: "lookup ?s W = Record ?w" by simp
  have "lookup (put (put s W ?w) L ?l) L = Record ?l"
    using L1 by (rule lookup_put_same)
  then have L2: "lookup ?s L = Record ?l" by simp
  have key: "getPairKey W L \<in> set (comparedPairs ?s)" by simp
  from ret W2 L2 key show ?thesis by blast
qed

section \<open>The update rule\<close>




section \<open>Re-submission\<close>

lemma lookup_after_new_pair:
  assumes "lookup s W = Record w" and "lookup s L = Record l" and "W \<noteq> L"
    and "getPairKey W L \<notin> set (comparedPairs s)"
    and "submitComparison s W L = Returns s'"
  shows "lookup s' W \<noteq> Falsy \<and> lookup s' L \<noteq> Falsy \<and> getPairKey W L \<in> set (comparedPairs s')"
proof -
  from submitComparison_new_pair_effect [OF assms(1-4)] assms(5) show ?thesis by auto
qed

lemma constructor_AB: "constructor [''A'', ''B''] no_options = Inr session_AB"
  by (simp add: constructor_def reset_def new_Set_def Set_add_def assign_def
      build_allPairs_def session_AB_def)



text \<open>
  Claim C6. For known, distinct identifiers \<open>W\<close> and \<open>L\<close> whose key is in the compared
  set, \<open>submitComparison\<close> returns and leaves the whole state as it is, in either
  orientation. Hence, from any state, a second submission of the pair right after a
  first one, in the same or in the reversed orientation, changes nothing.
\<close>

theorem submitComparison_resubmission:
  assumes "lookup s W = Record w" and "lookup s L = Record l" and "W \<noteq> L"
  shows "(getPairKey W L \<in> set (comparedPairs s) \<longrightarrow>
            submitComparison s W L = Returns s \<and> submitComparison s L W = Returns s)
       \<and> (\<exists>s'. submitComparison s W L = Returns s'
              \<and> submitComparison s' W L = Returns s' \<and> submitComparison s' L W = Returns s')"
proof -
  have noop: "submitComparison t W L = Returns t \<and> submitComparison t L W = Returns t"
    if "lookup t W \<noteq> Falsy" and "lookup t L \<noteq> Falsy"
      and "getPairKey W L \<in> set (comparedPairs t)" for t
  proof -
    from that(3) have "getPairKey L W \<in> set (comparedPairs t)"
      by (simp add: getPairKey_commute [of L W])
    with that assms(3) show ?thesis
      by (simp add: submitComparison_old_pair)
  qed
  have first: "getPairKey W L \<in> set (comparedPairs s) \<longrightarrow>
            submitComparison s W L = Returns s \<and> submitComparison s L W = Returns s"
    using noop [of s] assms(1,2) by simp
  have second: "\<exists>s'. submitComparison s W L = Returns s'
              \<and> submitComparison s' W L = Returns s' \<and> submitComparison s' L W = Returns s'"
  proof (cases "getPairKey W L \<in> set (comparedPairs s)")
    case True
    with first show ?thesis by auto
  next
    case False
    from submitComparison_new_pair_effect [OF assms False]
    obtain s' where s': "submitComparison s W L = Returns s'" by blast
    from lookup_after_new_pair [OF assms False s'] noop [of s'] s'
    show ?thesis by blast
  qed
  from first second show ?thesis ..
qed

theorem submitComparison_resubmission_witness:
  "lookup session_AB_after ''A''
     = Record \<lparr>item = ''A'', score = 1216, confidence = 1 / 2, comparisons = 1\<rparr>
   \<and> lookup session_AB_after ''B''
     = Record \<lparr>item = ''B'', score = 1184, confidence = 1 / 2, comparisons = 1\<rparr>
   \<and> ''A'' \<noteq> ''B'' \<and> getPairKey ''A'' ''B'' \<in> set (comparedPairs session_AB_after)
   \<and> submitComparison session_AB_after ''A'' ''B'' = Returns session_AB_after
   \<and> submitComparison session_AB_after ''B'' ''A'' = Returns session_AB_after"
proof -
  have a: "lookup session_AB_after ''A''
     = Record \<lparr>item = ''A'', score = 1216, confidence = 1 / 2, comparisons = 1\<rparr>"
    and b: "lookup session_AB_after ''B''
     = Record \<lparr>item = ''B'', score = 1184, confidence = 1 / 2, comparisons = 1\<rparr>"
    by (simp_all add: session_AB_after_def session_AB_def lookup_def)
  have ne: "''A'' \<noteq> ''B''" by simp
  have old: "getPairKey ''A'' ''B'' \<in> set (comparedPairs session_AB_after)"
    by (simp add: session_AB_after_def session_AB_def getPairKey_def)
  from submitComparison_resubmission [OF a b ne] old a b ne show ?thesis by blast
qed

section \<open>Rejected submissions\<close>

lemma submitComparison_unknown:
  "lookup s winner = Falsy \<or> lookup s loser = Falsy \<Longrightarrow>
     submitComparison s winner loser = Throws UnknownItem s"
  by (simp add: submitComparison_def)

lemma submitComparison_same:
  "lookup s winner \<noteq> Falsy \<Longrightarrow> submitComparison s winner winner = Throws SameItem s"
  by (simp add: submitComparison_def)

lemma submitComparison_throws_unchanged:
  "submitComparison s winner loser = Throws e s' \<Longrightarrow> s' = s"
  by (auto simp: submitComparison_def Let_def split: if_splits jsvalue.splits)

text \<open>An identifier that is no own property and no property of \<^verbatim>\<open>Object.prototype\<close> is
  rejected, as long as the prototype of \<^verbatim>\<open>this.items\<close> is \<^verbatim>\<open>Object.prototype\<close>.\<close>

lemma lookup_absent:
  "map_of (items s) k = None \<Longrightarrow> items_proto s = None \<Longrightarrow> k \<notin> set Object_prototype
     \<Longrightarrow> lookup s k = Falsy"
  by (simp add: lookup_def)

text \<open>
  Claim C7. An identifier outside the rating store is rejected with \<open>UnknownItem\<close> when
  its lookup is falsy (\<open>submitComparison_unknown\<close>, \<open>lookup_absent\<close>), equal known
  identifiers are rejected with \<open>SameItem\<close> (\<open>submitComparison_same\<close>), and a rejected call
  leaves the state as it is (\<open>submitComparison_throws_unchanged\<close>). But the guard of
  line 97 tests \<^verbatim>\<open>!this.items[winner]\<close> on a plain object: the name of a property of
  \<^verbatim>\<open>Object.prototype\<close> finds a function there, which is truthy. In the session of
  \<open>A\<close> and \<open>B\<close>, the identifier \<open>constructor\<close> is no item, yet the call with it raises no
  \<open>UnknownItem\<close> and goes on to the update.
\<close>

theorem submitComparison_inherited_name:
  "constructor [''A'', ''B''] no_options = Inr session_AB
   \<and> map_of (items session_AB) ''constructor'' = None
   \<and> lookup session_AB ''constructor'' = Truthy
   \<and> submitComparison session_AB ''constructor'' ''A'' = Unguarded"
proof -
  note c = constructor_AB
  have n: "map_of (items session_AB) ''constructor'' = None"
    by (simp add: session_AB_def)
  have t: "lookup session_AB ''constructor'' = Truthy"
    by (simp add: session_AB_def lookup_def Object_prototype_def)
  have a: "lookup session_AB ''A'' = Record (fresh ''A'')"
    by (simp add: session_AB_def lookup_def)
  have k: "getPairKey ''constructor'' ''A'' \<notin> set (comparedPairs session_AB)"
    by (simp add: session_AB_def)
  have "submitComparison session_AB ''constructor'' ''A'' = Unguarded"
    unfolding submitComparison_def using k by (simp add: t a)
  with c n t show ?thesis by simp
qed

section \<open>Construction\<close>

lemma remdups_snoc: "remdups (zs @ [x]) = remdups (filter (\<lambda>y. y \<noteq> x) zs) @ [x]"
  by (induction zs) auto

lemma fold_Set_add:
  "fold Set_add xs acc = acc @ rev (remdups (rev (filter (\<lambda>x. x \<notin> set acc) xs)))"
proof (induction xs arbitrary: acc)
  case Nil
  show ?case by simp
next
  case (Cons x xs)
  show ?case
  proof (cases "x \<in> set acc")
    case True
    then have "Set_add x acc = acc" by (simp add: Set_add_def)
    with True show ?thesis by (simp add: Cons.IH)
  next
    case False
    have "filter (\<lambda>y. y \<notin> set (acc @ [x])) xs
            = filter (\<lambda>y. y \<noteq> x) (filter (\<lambda>y. y \<notin> set acc) xs)"
      by (induction xs) auto
    moreover from False have "Set_add x acc = acc @ [x]" by (simp add: Set_add_def)
    ultimately show ?thesis using False
      by (simp add: Cons.IH remdups_snoc rev_filter)
  qed
qed

text \<open>\<open>new_Set\<close> keeps the first occurrence of every element, in order.\<close>

lemma new_Set_first_occurrences: "new_Set xs = rev (remdups (rev xs))"
  by (simp add: new_Set_def fold_Set_add)

lemma set_new_Set [simp]: "set (new_Set xs) = set xs"
  by (simp add: new_Set_first_occurrences)

lemma distinct_new_Set [simp]: "distinct (new_Set xs)"
  by (simp add: new_Set_first_occurrences)

lemma new_Set_distinct: "distinct xs \<Longrightarrow> new_Set xs = xs"
  by (simp add: new_Set_first_occurrences distinct_remdups_id)

lemma constructor_too_short:
  "length its < 2 \<Longrightarrow> constructor its opts = Inl InvalidInput"
  by (simp add: constructor_def)

lemma constructor_succeeds:
  "2 \<le> length its \<Longrightarrow>
     \<exists>s. constructor its opts = Inr s \<and> initialItems s = new_Set its
         \<and> options s = with_defaults opts"
  by (simp add: constructor_def reset_def Let_def)

text \<open>
  Claim C4. A list of fewer than two elements is refused with \<open>InvalidInput\<close>
  (\<open>constructor_too_short\<close>), and a list of two or more elements yields a session over
  its de-duplicated list in the order of first occurrence (\<open>constructor_succeeds\<close>,
  \<open>new_Set_first_occurrences\<close>). The length is tested before the duplicates are
  removed, though: the list \<open>[a, a]\<close> has one distinct identifier and is accepted, giving
  a session of one item and no pair.
\<close>

theorem constructor_duplicates_only:
  "constructor [''a'', ''a''] no_options = Inr session_a
   \<and> initialItems session_a = [''a''] \<and> allPairs session_a = []"
  by (simp add: constructor_def reset_def new_Set_def Set_add_def assign_def
      build_allPairs_def session_a_def)

section \<open>The pair universe\<close>

lemma fold_push: "fold (\<lambda>j acc. acc @ [f j]) js acc = acc @ map f js"
  by (induction js arbitrary: acc) auto

lemma fold_push_lists: "fold (\<lambda>i acc. acc @ g i) is acc = acc @ concat (map g is)"
  by (induction "is" arbitrary: acc) auto

text \<open>The loops of \<open>reset\<close> enumerate \<open>(xs ! i, xs ! j)\<close> for \<open>i < j\<close>, by \<open>i\<close>, then by \<open>j\<close>.\<close>

lemma build_allPairs_eq:
  "build_allPairs xs =
     concat (map (\<lambda>i. map (\<lambda>j. \<lparr>itemA = xs ! i, itemB = xs ! j\<rparr>) [Suc i..<length xs])
                 [0..<length xs])"
  unfolding build_allPairs_def fold_push fold_push_lists by simp

lemma in_concat_map: "p \<in> set (concat (map g is)) \<longleftrightarrow> (\<exists>i \<in> set is. p \<in> set (g i))"
  by auto

lemma in_build_allPairs:
  "p \<in> set (build_allPairs xs) \<longleftrightarrow>
     (\<exists>i j. i < j \<and> j < length xs \<and> p = \<lparr>itemA = xs ! i, itemB = xs ! j\<rparr>)"
proof -
  have "p \<in> set (build_allPairs xs) \<longleftrightarrow>
      (\<exists>i < length xs. \<exists>j. Suc i \<le> j \<and> j < length xs \<and> p = \<lparr>itemA = xs ! i, itemB = xs ! j\<rparr>)"
    unfolding build_allPairs_eq in_concat_map by (simp add: image_iff Bex_def conj_ac)
  also have "\<dots> \<longleftrightarrow> (\<exists>i j. i < j \<and> j < length xs \<and> p = \<lparr>itemA = xs ! i, itemB = xs ! j\<rparr>)"
    by (metis Suc_le_eq less_trans)
  finally show ?thesis .
qed

lemma build_allPairs_member:
  assumes "a \<in> set xs" and "b \<in> set xs" and "a \<noteq> b"
  shows "\<lparr>itemA = a, itemB = b\<rparr> \<in> set (build_allPairs xs)
         \<or> \<lparr>itemA = b, itemB = a\<rparr> \<in> set (build_allPairs xs)"
proof -
  from assms(1) obtain i where i: "i < length xs" "xs ! i = a" by (auto simp: in_set_conv_nth)
  from assms(2) obtain j where j: "j < length xs" "xs ! j = b" by (auto simp: in_set_conv_nth)
  from i j assms(3) have "i \<noteq> j" by auto
  then consider "i < j" | "j < i" by linarith
  then show ?thesis
  proof cases
    case 1
    with i j have "\<lparr>itemA = a, itemB = b\<rparr> \<in> set (build_allPairs xs)"
      unfolding in_build_allPairs by blast
    then show ?thesis ..
  next
    case 2
    with i j have "\<lparr>itemA = b, itemB = a\<rparr> \<in> set (build_allPairs xs)"
      unfolding in_build_allPairs by blast
    then show ?thesis ..
  qed
qed

lemma pair_key_member:
  assumes "a \<in> set xs" and "b \<in> set xs" and "a \<noteq> b"
  shows "getPairKey a b \<in> pair_key ` set (build_allPairs xs)"
proof -
  from build_allPairs_member [OF assms]
  show ?thesis
  proof
    assume "\<lparr>itemA = a, itemB = b\<rparr> \<in> set (build_allPairs xs)"
    then have "pair_key \<lparr>itemA = a, itemB = b\<rparr> \<in> pair_key ` set (build_allPairs xs)"
      by (rule imageI)
    then show ?thesis by (simp add: pair_key_def)
  next
    assume "\<lparr>itemA = b, itemB = a\<rparr> \<in> set (build_allPairs xs)"
    then have "pair_key \<lparr>itemA = b, itemB = a\<rparr> \<in> pair_key ` set (build_allPairs xs)"
      by (rule imageI)
    then show ?thesis by (simp add: pair_key_def getPairKey_commute [of a b])
  qed
qed

section \<open>Reset\<close>

lemma map_of_assign:
  "map_of (fst (assign obj x d)) k =
     (if k = x \<and> x \<noteq> ''__proto__'' then Some d else map_of (fst obj) k)"
proof (cases "x = ''__proto__''")
  case True
  then show ?thesis by (simp add: assign_def)
next
  case False
  show ?thesis
  proof (cases "x \<in> fst ` set (fst obj)")
    case True
    with False show ?thesis
      by (simp add: assign_def map_of_replace_same map_of_replace_other)
  next
    case nin: False
    then have "map_of (fst obj) x = None" by (simp add: map_of_None_iff)
    with False nin show ?thesis
      by (auto simp: assign_def map_add_def split: option.splits)
  qed
qed

lemma snd_assign: "snd (assign obj x d) = (if x = ''__proto__'' then Some d else snd obj)"
  by (simp add: assign_def)

lemma map_of_fold_assign:
  "map_of (fst (fold (\<lambda>k acc. assign acc k (fresh k)) ks obj)) k =
     (if k \<in> set ks \<and> k \<noteq> ''__proto__'' then Some (fresh k) else map_of (fst obj) k)"
  by (induction ks arbitrary: obj) (auto simp: map_of_assign)

lemma snd_fold_assign:
  "snd (fold (\<lambda>k acc. assign acc k (fresh k)) ks obj) =
     (if ''__proto__'' \<in> set ks then Some (fresh ''__proto__'') else snd obj)"
  by (induction ks arbitrary: obj) (auto simp: snd_assign)

text \<open>On distinct identifiers every assignment creates a property, after the earlier ones.\<close>

lemma fst_fold_assign:
  assumes "distinct ks" and "set ks \<inter> fst ` set (fst obj) = {}"
  shows "fst (fold (\<lambda>k acc. assign acc k (fresh k)) ks obj) =
           fst obj @ map (\<lambda>k. (k, fresh k)) (filter (\<lambda>k. k \<noteq> ''__proto__'') ks)"
  using assms
proof (induction ks arbitrary: obj)
  case Nil
  show ?case by simp
next
  case (Cons x ks)
  from Cons.prems have x: "x \<notin> fst ` set (fst obj)" and d: "distinct ks" and nx: "x \<notin> set ks"
    and disj: "set ks \<inter> fst ` set (fst obj) = {}" by auto
  have a: "fst (assign obj x (fresh x)) =
             (if x = ''__proto__'' then fst obj else fst obj @ [(x, fresh x)])"
    using x by (simp add: assign_def)
  have "set ks \<inter> fst ` set (fst (assign obj x (fresh x))) = {}"
    using disj nx by (auto simp: a)
  from Cons.IH [OF d this] show ?case by (simp add: a)
qed

lemma items_reset:
  "distinct (initialItems s) \<Longrightarrow>
     items (reset s) = map (\<lambda>k. (k, fresh k)) (filter (\<lambda>k. k \<noteq> ''__proto__'') (initialItems s))"
  by (simp add: reset_def Let_def fst_fold_assign)

lemma items_proto_reset:
  "items_proto (reset s) =
     (if ''__proto__'' \<in> set (initialItems s) then Some (fresh ''__proto__'') else None)"
  by (simp add: reset_def Let_def snd_fold_assign)

lemma map_of_items_reset:
  "map_of (items (reset s)) k =
     (if k \<in> set (initialItems s) \<and> k \<noteq> ''__proto__'' then Some (fresh k) else None)"
  by (simp add: reset_def Let_def map_of_fold_assign)

lemma reset_frame [simp]:
  "initialItems (reset s) = initialItems s" "options (reset s) = options s"
  "comparedPairs (reset s) = []" "allPairs (reset s) = build_allPairs (initialItems s)"
  by (simp_all add: reset_def Let_def)

lemma lookup_reset:
  "k \<in> set (initialItems s) \<Longrightarrow> lookup (reset s) k = Record (fresh k)"
  by (auto simp: lookup_Record_cases map_of_items_reset items_proto_reset)

text \<open>
  Claim C9. From every state, \<open>reset\<close> gives every identifier of the session the record
  with score 1200, confidence 0 and no comparison; the rating store holds no other
  record; the pair universe is rebuilt as \<open>(items[i], items[j])\<close> for all \<open>i < j\<close>, ordered
  by \<open>i\<close> and then by \<open>j\<close>; the compared set is empty; and the options (the threshold, the
  three weights and the K-factor) and the identifiers are those of the state before.
\<close>

theorem reset_restores:
  "(\<forall>k \<in> set (initialItems s).
      lookup (reset s) k = Record \<lparr>item = k, score = 1200, confidence = 0, comparisons = 0\<rparr>)
   \<and> fst ` set (items (reset s)) \<subseteq> set (initialItems s)
   \<and> map (\<lambda>p. (itemA p, itemB p)) (allPairs (reset s)) =
       concat (map (\<lambda>i. map (\<lambda>j. (initialItems s ! i, initialItems s ! j))
                            [Suc i..<length (initialItems s)])
                   [0..<length (initialItems s)])
   \<and> comparedPairs (reset s) = []
   \<and> options (reset s) = options s
   \<and> initialItems (reset s) = initialItems s"
proof -
  have records: "\<forall>k \<in> set (initialItems s).
      lookup (reset s) k = Record \<lparr>item = k, score = 1200, confidence = 0, comparisons = 0\<rparr>"
    using lookup_reset [of _ s] by (simp add: fresh_def)
  have "k \<in> set (initialItems s)" if "k \<in> fst ` set (items (reset s))" for k
  proof -
    from that have "map_of (items (reset s)) k \<noteq> None" by (simp add: map_of_None_iff)
    then show ?thesis by (simp add: map_of_items_reset split: if_splits)
  qed
  then have own: "fst ` set (items (reset s)) \<subseteq> set (initialItems s)" by blast
  have pairs: "map (\<lambda>p. (itemA p, itemB p)) (allPairs (reset s)) =
       concat (map (\<lambda>i. map (\<lambda>j. (initialItems s ! i, initialItems s ! j))
                            [Suc i..<length (initialItems s)])
                   [0..<length (initialItems s)])"
    by (simp add: build_allPairs_eq map_concat comp_def)
  from records own pairs show ?thesis by simp
qed

theorem reset_restores_witness:
  "lookup (reset session_AB_after) ''A''
     = Record \<lparr>item = ''A'', score = 1200, confidence = 0, comparisons = 0\<rparr>
   \<and> lookup (reset session_AB_after) ''B''
     = Record \<lparr>item = ''B'', score = 1200, confidence = 0, comparisons = 0\<rparr>
   \<and> map (\<lambda>p. (itemA p, itemB p)) (allPairs (reset session_AB_after)) = [(''A'', ''B'')]
   \<and> comparedPairs session_AB_after = [''A||B'']
   \<and> comparedPairs (reset session_AB_after) = []
   \<and> options (reset session_AB_after) = options session_AB_after"
proof -
  have i: "initialItems session_AB_after = [''A'', ''B'']"
    and c: "comparedPairs session_AB_after = [''A||B'']"
    by (simp_all add: session_AB_after_def session_AB_def)
  have u: "[0..<2] = [0, 1]" "[Suc 0..<2] = [1]" by (simp_all add: upt_rec)
  from reset_restores [of session_AB_after] c show ?thesis
    by (simp add: i u)
qed

section \<open>The invariant of a session\<close>

lemma sum_list_replace:
  "distinct (map fst xs) \<Longrightarrow> map_of xs k = Some d0 \<Longrightarrow>
     sum_list (map (\<lambda>e. f (snd e)) (map (\<lambda>e. if fst e = k then (k, d) else e) xs))
       = sum_list (map (\<lambda>e. f (snd e)) xs) - f d0 + (f d :: real)"
proof (induction xs)
  case Nil
  then show ?case by simp
next
  case (Cons e xs)
  show ?case
  proof (cases "fst e = k")
    case True
    with Cons.prems have "k \<notin> fst ` set xs" and "snd e = d0" by auto
    then have "map (\<lambda>e. if fst e = k then (k, d) else e) xs = xs"
      by (induction xs) auto
    with True \<open>snd e = d0\<close> show ?thesis by simp
  next
    case False
    with Cons show ?thesis by simp
  qed
qed

lemma total_score_put:
  assumes "lookup s k = Record d0" and "distinct (map fst (items s))"
  shows "total_score (put s k d) = total_score s - ItemData.score d0 + ItemData.score d"
proof (cases "k \<in> fst ` set (items s)")
  case True
  then obtain v where v: "map_of (items s) k = Some v"
    by (cases "map_of (items s) k") (simp_all add: map_of_None_iff)
  with assms(1) have "v = d0" by (simp add: lookup_Record_cases)
  with v have v': "map_of (items s) k = Some d0" by simp
  from True have "items (put s k d) = map (\<lambda>e. if fst e = k then (k, d) else e) (items s)"
    and "items_proto (put s k d) = items_proto s" by (simp_all add: put_own)
  then show ?thesis
    unfolding total_score_def
    using sum_list_replace [OF assms(2) v', of ItemData.score d] by simp
next
  case False
  then have "map_of (items s) k = None" by (simp add: map_of_None_iff)
  with assms(1) have "items_proto s = Some d0" by (simp add: lookup_Record_cases)
  with False show ?thesis by (simp add: total_score_def put_proto)
qed

lemma put_frame [simp]:
  "initialItems (put s k d) = initialItems s" "allPairs (put s k d) = allPairs s"
  "comparedPairs (put s k d) = comparedPairs s" "options (put s k d) = options s"
  "map fst (items (put s k d)) = map fst (items s)"
  by (simp_all add: put_def map_fst_replace)

text \<open>A record of a well-formed store belongs to an identifier of the session and
  carries that identifier.\<close>

lemma store_inv_lookup_Record:
  assumes "store_inv s" and "lookup s k = Record d"
  shows "k \<in> set (initialItems s) \<and> ItemData.item d = k"
proof (cases "map_of (items s) k")
  case None
  with assms(2) have "k = ''__proto__''" and "items_proto s = Some d"
    by (simp_all add: lookup_Record_cases)
  with assms(1) show ?thesis by (simp add: store_inv_def)
next
  case (Some v)
  with assms(2) have "v = d" by (simp add: lookup_Record_cases)
  with Some have m: "(k, d) \<in> set (items s)" by (simp add: map_of_SomeD)
  then have "k \<in> set (map fst (items s))" by force
  with assms(1) have "k \<in> set (initialItems s)" by (simp add: store_inv_def)
  moreover from assms(1) m have "ItemData.item d = k"
    by (auto simp: store_inv_def list_all_iff)
  ultimately show ?thesis ..
qed

lemma store_inv_distinct_keys: "store_inv s \<Longrightarrow> distinct (map fst (items s))"
  by (simp add: store_inv_def)

lemma store_inv_put:
  assumes "store_inv s" and "lookup s k = Record d0" and "ItemData.item d = ItemData.item d0"
  shows "store_inv (put s k d)"
proof -
  from store_inv_lookup_Record [OF assms(1,2)] assms(3)
  have k: "k \<in> set (initialItems s)" and d: "ItemData.item d = k" by simp_all
  show ?thesis
  proof (cases "k \<in> fst ` set (items s)")
    case True
    have la: "list_all (\<lambda>e. ItemData.item (snd e) = fst e)
            (map (\<lambda>e. if fst e = k then (k, d) else e) (items s))"
      using assms(1) d by (auto simp: store_inv_def list_all_iff)
    from True have i: "items (put s k d) = map (\<lambda>e. if fst e = k then (k, d) else e) (items s)"
      "items_proto (put s k d) = items_proto s" "initialItems (put s k d) = initialItems s"
      by (simp_all add: put_own)
    from assms(1) la show ?thesis
      unfolding store_inv_def i map_fst_replace by simp
  next
    case False
    then have "map_of (items s) k = None" by (simp add: map_of_None_iff)
    with assms(2) have "k = ''__proto__''" by (simp add: lookup_Record_cases)
    moreover from False have "items (put s k d) = items s" "items_proto (put s k d) = Some d"
      "initialItems (put s k d) = initialItems s"
      by (simp_all add: put_proto)
    ultimately show ?thesis
      using assms(1) k d unfolding store_inv_def by simp
  qed
qed

lemma store_inv_comparedPairs_update [simp]:
  "store_inv (s\<lparr>comparedPairs := c\<rparr>) = store_inv s"
  by (simp add: store_inv_def split: option.splits)

lemma total_score_comparedPairs_update [simp]:
  "total_score (s\<lparr>comparedPairs := c\<rparr>) = total_score s"
  by (simp add: total_score_def)

lemma length_filter_neq:
  "distinct xs \<Longrightarrow> length (filter (\<lambda>k. k \<noteq> p) xs) + (if p \<in> set xs then 1 else 0) = length xs"
  by (induction xs) auto

lemma store_inv_reset: "distinct (initialItems s) \<Longrightarrow> store_inv (reset s)"
  by (simp add: store_inv_def items_reset items_proto_reset comp_def list_all_iff fresh_def)

lemma total_score_reset:
  assumes "distinct (initialItems s)"
  shows "total_score (reset s) = 1200 * real (length (initialItems s))"
proof -
  let ?own = "filter (\<lambda>k. k \<noteq> ''__proto__'') (initialItems s)"
  have "sum_list (map (\<lambda>e. ItemData.score (snd e)) (items (reset s))) = 1200 * real (length ?own)"
    by (simp add: items_reset [OF assms] comp_def fresh_def sum_list_triv)
  moreover have "(case items_proto (reset s) of None \<Rightarrow> 0 | Some p \<Rightarrow> ItemData.score p)
      = 1200 * real (if ''__proto__'' \<in> set (initialItems s) then 1 else 0)"
    by (simp add: items_proto_reset fresh_def)
  moreover have "real (length ?own) + real (if ''__proto__'' \<in> set (initialItems s) then 1 else 0)
      = real (length (initialItems s))"
    using length_filter_neq [OF assms, of "''__proto__''"] by (simp split: if_splits)
  ultimately show ?thesis
    unfolding total_score_def by (simp add: algebra_simps)
qed

lemma session_inv_reset: "distinct (initialItems s) \<Longrightarrow> session_inv (reset s)"
  by (simp add: session_inv_def store_inv_reset total_score_reset)

lemma submitComparison_Returns_cases:
  assumes "submitComparison s W L = Returns s'"
  obtains (old) "s' = s"
  | (new) w l where "lookup s W = Record w" and "lookup s L = Record l" and "W \<noteq> L"
      and "getPairKey W L \<notin> set (comparedPairs s)"
      and "s' = (put (put s W (compared w (kFactor (options s) * (1 - winnerExpected w l))))
                   L (compared l (kFactor (options s) * (0 - (1 - winnerExpected w l)))))
              \<lparr>comparedPairs := comparedPairs s @ [getPairKey W L]\<rparr>"
proof -
  from assms have guard: "lookup s W \<noteq> Falsy" "lookup s L \<noteq> Falsy" "W \<noteq> L"
    unfolding submitComparison_def by (simp_all split: if_splits)
  show ?thesis
  proof (cases "getPairKey W L \<in> set (comparedPairs s)")
    case True
    with submitComparison_old_pair [OF guard True] assms have "s' = s" by simp
    then show ?thesis by (rule old)
  next
    case False
    have "\<exists>w. lookup s W = Record w"
    proof (cases "lookup s W")
      case Truthy
      with assms guard False show ?thesis unfolding submitComparison_def by simp
    qed (use guard in simp_all)
    then obtain w where w: "lookup s W = Record w" ..
    have "\<exists>l. lookup s L = Record l"
    proof (cases "lookup s L")
      case Truthy
      with assms guard False w show ?thesis unfolding submitComparison_def by simp
    qed (use guard in simp_all)
    then obtain l where l: "lookup s L = Record l" ..
    from submitComparison_new_pair [OF w l guard(3) False] assms
    have "s' = (put (put s W (compared w (kFactor (options s) * (1 - winnerExpected w l))))
                   L (compared l (kFactor (options s) * (0 - (1 - winnerExpected w l)))))
              \<lparr>comparedPairs := comparedPairs s @ [getPairKey W L]\<rparr>" by simp
    with w l guard(3) False show ?thesis by (rule new)
  qed
qed

lemma session_inv_submit:
  assumes inv: "session_inv s" and ret: "submitComparison s W L = Returns s'"
  shows "session_inv s'"
  using ret
proof (cases rule: submitComparison_Returns_cases)
  case old
  with inv show ?thesis by simp
next
  case (new w l)
  let ?dw = "kFactor (options s) * (1 - winnerExpected w l)"
  let ?dl = "kFactor (options s) * (0 - (1 - winnerExpected w l))"
  let ?s1 = "put s W (compared w ?dw)"
  let ?s2 = "put ?s1 L (compared l ?dl)"
  from inv have st: "store_inv s" by (simp add: session_inv_def)
  have l1: "lookup ?s1 L = Record l"
    using new(1-3) by (intro lookup_put_other) auto
  have st1: "store_inv ?s1"
    using st new(1) by (rule store_inv_put) (simp add: compared_def)
  have st2: "store_inv ?s2"
    using st1 l1 by (rule store_inv_put) (simp add: compared_def)
  have t1: "total_score ?s1 = total_score s - ItemData.score w + ItemData.score (compared w ?dw)"
    using new(1) store_inv_distinct_keys [OF st] by (rule total_score_put)
  have t2: "total_score ?s2 = total_score ?s1 - ItemData.score l + ItemData.score (compared l ?dl)"
    using l1 store_inv_distinct_keys [OF st1] by (rule total_score_put)
  have total: "total_score ?s2 = total_score s"
    unfolding t2 t1 by (simp add: compared_def algebra_simps)
  from store_inv_lookup_Record [OF st new(1)] store_inv_lookup_Record [OF st new(2)]
  have "W \<in> set (initialItems s)" and "L \<in> set (initialItems s)" by simp_all
  from pair_key_member [OF this new(3)] inv
  have key: "getPairKey W L \<in> pair_key ` set (allPairs s)" by (simp add: session_inv_def)
  from inv have pairs: "allPairs s = build_allPairs (initialItems s)"
    and dist: "distinct (comparedPairs s)"
    and sub: "set (comparedPairs s) \<subseteq> pair_key ` set (allPairs s)"
    and tot: "total_score s = 1200 * real (length (initialItems s))"
    unfolding session_inv_def by blast+
  have "store_inv s'" unfolding new(5) using st2 by simp
  moreover have "allPairs s' = build_allPairs (initialItems s')"
    unfolding new(5) using pairs by simp
  moreover have "distinct (comparedPairs s')"
    unfolding new(5) using dist new(4) by simp
  moreover have "set (comparedPairs s') \<subseteq> pair_key ` set (allPairs s')"
    unfolding new(5) using sub key by simp
  moreover have "total_score s' = 1200 * real (length (initialItems s'))"
    unfolding new(5) using total tot by simp
  ultimately show ?thesis unfolding session_inv_def by blast
qed

lemma constructor_Inr:
  "constructor its opts = Inr s \<Longrightarrow>
     \<exists>s0. s = reset s0 \<and> initialItems s0 = new_Set its \<and> options s0 = with_defaults opts
          \<and> 2 \<le> length its"
proof -
  let ?s0 = "\<lparr>items = [], items_proto = None, initialItems = new_Set its,
             allPairs = [], comparedPairs = [], options = with_defaults opts\<rparr>"
  assume c: "constructor its opts = Inr s"
  then have len: "2 \<le> length its"
    unfolding constructor_def by (simp split: if_splits)
  with c have "s = reset ?s0"
    unfolding constructor_def by simp
  with len have "s = reset ?s0 \<and> initialItems ?s0 = new_Set its
      \<and> options ?s0 = with_defaults opts \<and> 2 \<le> length its" by simp
  then show ?thesis by (rule exI)
qed

text \<open>Every reachable state satisfies the invariant.\<close>

lemma reachable_inv: "reachable s \<Longrightarrow> session_inv s"
proof (induction rule: reachable.induct)
  case (constructed its opts s)
  from constructor_Inr [OF this] obtain s0 where "s = reset s0" "initialItems s0 = new_Set its"
    by blast
  then show ?case by (simp add: session_inv_reset)
next
  case (after_reset s)
  then have "distinct (initialItems s)" by (simp add: session_inv_def store_inv_def)
  then show ?case by (rule session_inv_reset)
next
  case (after_submit s winner loser s')
  from after_submit.IH after_submit.hyps(2) show ?case by (rule session_inv_submit)
next
  case (after_throw s winner loser e s')
  from submitComparison_throws_unchanged [OF after_throw.hyps(2)] after_throw.IH
  show ?case by simp
qed




section \<open>The values of the rating store\<close>

lemma mset_Object_values: "mset (Object_values own) = mset (map snd own)"
  unfolding Object_values_def by (simp flip: image_mset_union)

lemma set_Object_values: "set (Object_values own) = snd ` set own"
  unfolding Object_values_def by auto

lemma length_Object_values: "length (Object_values own) = length own"
  using arg_cong [OF mset_Object_values, of size] by simp

lemma list_all_Object_values: "list_all P (Object_values own) = list_all P (map snd own)"
  by (simp add: list_all_iff set_Object_values)

text \<open>Without the identifier \<^verbatim>\<open>__proto__\<close> the own properties are all the items.\<close>

lemma store_inv_no_proto:
  assumes "store_inv s" and "''__proto__'' \<notin> set (initialItems s)"
  shows "map fst (items s) = initialItems s" and "items_proto s = None"
proof -
  from assms(2) have "filter (\<lambda>k. k \<noteq> ''__proto__'') (initialItems s) = initialItems s"
    by (simp add: filter_id_conv) metis
  with assms(1) show "map fst (items s) = initialItems s" by (simp add: store_inv_def)
  from assms show "items_proto s = None"
    by (cases "items_proto s") (simp_all add: store_inv_def)
qed

lemma store_inv_member:
  assumes "store_inv s"
  shows "(k, d) \<in> set (items s) \<longleftrightarrow> map_of (items s) k = Some d"
  using store_inv_distinct_keys [OF assms] by (auto dest: map_of_SomeD)

lemma record_of_member:
  assumes "store_inv s" and "(k, d) \<in> set (items s)"
  shows "lookup s k = Record d" and "record_of s k = d" and "ItemData.item d = k"
proof -
  from assms have "map_of (items s) k = Some d" by (simp add: store_inv_member)
  then show l: "lookup s k = Record d" by (rule lookup_own)
  then show "record_of s k = d" by (simp add: record_of_def)
  from store_inv_lookup_Record [OF assms(1) l] show "ItemData.item d = k" by simp
qed

lemma store_inv_records:
  assumes "store_inv s" and "''__proto__'' \<notin> set (initialItems s)"
  shows "map snd (items s) = map (record_of s) (initialItems s)"
proof -
  have "map snd (items s) = map (record_of s) (map fst (items s))"
    using record_of_member(2) [OF assms(1)] by (simp add: list_eq_iff_nth_eq) (metis nth_mem prod.collapse)
  with store_inv_no_proto(1) [OF assms] show ?thesis by simp
qed

lemma reachable_nonempty: "reachable s \<Longrightarrow> initialItems s \<noteq> []"
proof (induction rule: reachable.induct)
  case (constructed its opts s)
  from constructor_Inr [OF this] obtain s0 where s0: "s = reset s0" "initialItems s0 = new_Set its"
    "2 \<le> length its" by blast
  then have "set (initialItems s) = set its" by simp
  moreover from s0(3) have "its \<noteq> []" by auto
  ultimately show ?case by auto
next
  case (after_reset s)
  then show ?case by simp
next
  case (after_submit s winner loser s')
  from after_submit.hyps(2) after_submit.IH show ?case
    by (cases rule: submitComparison_Returns_cases) simp_all
next
  case (after_throw s winner loser e s')
  from submitComparison_throws_unchanged [OF after_throw.hyps(2)] after_throw.IH
  show ?case by simp
qed

section \<open>Completion\<close>

lemma all_compared_iff:
  assumes "distinct c" and "set c \<subseteq> f ` set ps" and "distinct (map f ps)"
  shows "length c = length ps \<longleftrightarrow> (\<forall>p \<in> set ps. f p \<in> set c)"
proof -
  have cc: "card (set c) = length c" using assms(1) by (rule distinct_card)
  have cu: "card (f ` set ps) = length ps" using distinct_card [OF assms(3)] by simp
  show ?thesis
  proof
    assume "length c = length ps"
    with cc cu have "card (set c) = card (f ` set ps)" by simp
    with assms(2) have "set c = f ` set ps" by (intro card_subset_eq) simp_all
    then show "\<forall>p \<in> set ps. f p \<in> set c" by simp
  next
    assume "\<forall>p \<in> set ps. f p \<in> set c"
    with assms(2) have "set c = f ` set ps" by auto
    with cc cu show "length c = length ps" by simp
  qed
qed

lemma all_confident_iff:
  assumes "store_inv s" and "''__proto__'' \<notin> set (initialItems s)"
  shows "list_all P (Object_values (items s)) \<longleftrightarrow>
           (\<forall>k \<in> set (initialItems s). P (record_of s k))"
proof -
  have "list_all P (Object_values (items s)) = list_all P (map (record_of s) (initialItems s))"
    by (simp only: list_all_Object_values store_inv_records [OF assms])
  then show ?thesis by (simp add: list_all_iff)
qed

text \<open>
  In a session whose pairs have pairwise distinct keys and whose store holds every
  item, the completion predicate is what the specification says: all pairs compared,
  or all items confident.
\<close>

lemma isSessionComplete_iff:
  assumes "reachable s" and "distinct (map pair_key (allPairs s))"
    and "''__proto__'' \<notin> set (initialItems s)"
  shows "isSessionComplete s \<longleftrightarrow>
           (\<forall>p \<in> set (allPairs s). pair_key p \<in> set (comparedPairs s))
           \<or> (\<forall>k \<in> set (initialItems s).
                 ItemData.confidence (record_of s k) \<ge> confidenceThreshold (options s))"
proof -
  from assms(1) have inv: "session_inv s" by (rule reachable_inv)
  then have st: "store_inv s" and dc: "distinct (comparedPairs s)"
    and sub: "set (comparedPairs s) \<subseteq> pair_key ` set (allPairs s)"
    unfolding session_inv_def by blast+
  note a = all_compared_iff [OF dc sub assms(2)]
  note b = all_confident_iff [OF st assms(3)]
  show ?thesis unfolding isSessionComplete_def a b by auto
qed

lemma constructor_bars: "constructor [''a'', ''b||c'', ''a||b'', ''c''] no_options = Inr session_bars"
  by (simp add: constructor_def reset_def new_Set_def Set_add_def assign_def
      build_allPairs_def session_bars_def upt_rec)

lemma run_bars:
  "case submitAll session_bars pairs_bars of
     Returns s \<Rightarrow>
       comparedPairs s = [''a||b||c'', ''a||a||b'', ''a||c'', ''a||b||b||c'', ''b||c||c'']
       \<and> map (\<lambda>e. ItemData.confidence (snd e)) (items s) = [3 / 4, 3 / 4, 2 / 3, 2 / 3]
       \<and> allPairs s = allPairs session_bars \<and> options s = options session_bars
   | _ \<Rightarrow> False"
  by (simp add: submitAll_def pairs_bars_def session_bars_def submitComparison_def lookup_def
      getPairKey_def put_def compared_def Set_add_def fresh_def Let_def)

text \<open>
  Claim C2. \<open>isSessionComplete\<close> compares the size of the compared set with the number
  of pairs. With pairwise distinct keys that is the claim (\<open>isSessionComplete_iff\<close>).
  In the session of \<open>a\<close>, \<open>b||c\<close>, \<open>a||b\<close> and \<open>c\<close> two of the six pairs share a key: after all
  six pairs have been submitted, the key of every pair is in the compared set, the set
  has five elements, no item has reached the threshold of 0.9, and the session is
  reported as not complete.
\<close>

theorem isSessionComplete_after_collision:
  "constructor [''a'', ''b||c'', ''a||b'', ''c''] no_options = Inr session_bars
   \<and> map (\<lambda>p. (itemA p, itemB p)) (allPairs session_bars) = pairs_bars
   \<and> (case submitAll session_bars pairs_bars of
         Returns s \<Rightarrow>
           list_all (\<lambda>p. pair_key p \<in> set (comparedPairs s)) (allPairs s)
           \<and> length (comparedPairs s) = 5 \<and> length (allPairs s) = 6
           \<and> \<not> isSessionComplete s
       | _ \<Rightarrow> False)"
proof -
  have p: "map (\<lambda>p. (itemA p, itemB p)) (allPairs session_bars) = pairs_bars"
    by (simp add: session_bars_def pairs_bars_def)
  from run_bars obtain s where run: "submitAll session_bars pairs_bars = Returns s"
    and c: "comparedPairs s = [''a||b||c'', ''a||a||b'', ''a||c'', ''a||b||b||c'', ''b||c||c'']"
    and f: "map (\<lambda>e. ItemData.confidence (snd e)) (items s) = [3 / 4, 3 / 4, 2 / 3, 2 / 3]"
    and a: "allPairs s = allPairs session_bars" and o: "options s = options session_bars"
    by (auto split: completion.splits)
  have keys: "list_all (\<lambda>p. pair_key p \<in> set (comparedPairs s)) (allPairs s)"
    unfolding a c by (simp add: session_bars_def pair_key_def getPairKey_def)
  have len: "length (comparedPairs s) = 5" "length (allPairs s) = 6"
    unfolding a c by (simp_all add: session_bars_def)
  have t: "confidenceThreshold (options s) = 9 / 10"
    unfolding o by (simp add: session_bars_def with_defaults_def no_options_def)
  have "list_all (\<lambda>d. ItemData.confidence d \<ge> 9 / 10) (map snd (items s))
          = list_all (\<lambda>x. x \<ge> 9 / 10) (map (\<lambda>e. ItemData.confidence (snd e)) (items s))"
    by (simp add: list_all_iff)
  then have "\<not> list_all (\<lambda>d. ItemData.confidence d \<ge> 9 / 10) (map snd (items s))"
    unfolding f by simp
  then have "\<not> isSessionComplete s"
    unfolding isSessionComplete_def list_all_Object_values t using len by simp
  with constructor_bars p run keys len show ?thesis by simp
qed

section \<open>Normalised scores\<close>

lemma code_scores:
  assumes "reachable s" and "''__proto__'' \<notin> set (initialItems s)"
  shows "set (map ItemData.score (Object_values (items s))) = spec_allScores s"
    and "map ItemData.score (Object_values (items s)) \<noteq> []"
proof -
  from assms(1) have "session_inv s" by (rule reachable_inv)
  then have st: "store_inv s" by (simp add: session_inv_def)
  have "set (map ItemData.score (Object_values (items s)))
          = ItemData.score ` set (map snd (items s))"
    by (simp add: set_Object_values)
  also have "\<dots> = spec_allScores s"
    unfolding store_inv_records [OF st assms(2)] spec_allScores_def by (simp add: image_image)
  finally show "set (map ItemData.score (Object_values (items s))) = spec_allScores s" .
  from reachable_nonempty [OF assms(1)] store_inv_no_proto(1) [OF st assms(2)]
  have "items s \<noteq> []" by auto
  then have "length (Object_values (items s)) \<noteq> 0" by (simp add: length_Object_values)
  then show "map ItemData.score (Object_values (items s)) \<noteq> []" by simp
qed

text \<open>The normalisation of the code is the one of the specification: with a positive
  range the quotient, and 0.5 when all scores are equal.\<close>

lemma norm_agrees:
  assumes "reachable s" and "''__proto__'' \<notin> set (initialItems s)"
  shows "(if scoreRange_positive (map ItemData.score (Object_values (items s)))
          then normalizedScore (map ItemData.score (Object_values (items s)))
                 (ItemData.score (record_of s k))
          else 1 / 2) = spec_normScore s k"
proof -
  let ?scores = "map ItemData.score (Object_values (items s))"
  note sc = code_scores [OF assms]
  have fin: "finite (spec_allScores s)" and ne: "spec_allScores s \<noteq> {}"
    using sc by (metis List.finite_set, metis set_empty)
  from fin ne have "Min (spec_allScores s) \<le> Max (spec_allScores s)"
    by (meson Max_ge Min_le all_not_in_conv order_trans)
  then have "(Max (spec_allScores s) - Min (spec_allScores s) > 0)
      \<longleftrightarrow> Max (spec_allScores s) \<noteq> Min (spec_allScores s)" by linarith
  then show ?thesis
    unfolding scoreRange_positive_def normalizedScore_def minScore_def maxScore_def
      spec_normScore_def sc(1)
    using sc(2) by simp
qed


section \<open>The rankings report\<close>

lemma with_ranks:
  fixes xs :: "RankingResult list"
  defines "ys \<equiv> map (\<lambda>e. (fst e)\<lparr>rank := snd e + 1\<rparr>) (zip xs [0..<length xs])"
  shows "map rank ys = [1..<Suc (length xs)]"
    and "map (\<lambda>r. (RankingResult.item r, RankingResult.score r, RankingResult.confidence r)) ys
         = map (\<lambda>r. (RankingResult.item r, RankingResult.score r, RankingResult.confidence r)) xs"
    and "length ys = length xs"
proof -
  show "map rank ys = [1..<Suc (length xs)]"
  proof (rule nth_equalityI)
    show "length (map rank ys) = length [1..<Suc (length xs)]"
      by (simp add: ys_def del: upt_Suc)
    fix i assume "i < length (map rank ys)"
    then have "i < length xs" by (simp add: ys_def)
    then show "map rank ys ! i = [1..<Suc (length xs)] ! i"
      by (simp add: ys_def del: upt_Suc)
  qed
  show "map (\<lambda>r. (RankingResult.item r, RankingResult.score r, RankingResult.confidence r)) ys
         = map (\<lambda>r. (RankingResult.item r, RankingResult.score r, RankingResult.confidence r)) xs"
  proof (rule nth_equalityI)
    show "length (map (\<lambda>r. (RankingResult.item r, RankingResult.score r,
                              RankingResult.confidence r)) ys)
        = length (map (\<lambda>r. (RankingResult.item r, RankingResult.score r,
                                RankingResult.confidence r)) xs)" by (simp add: ys_def)
    fix i
    assume "i < length (map (\<lambda>r. (RankingResult.item r, RankingResult.score r,
                              RankingResult.confidence r)) ys)"
    then have "i < length xs" by (simp add: ys_def)
    then show "map (\<lambda>r. (RankingResult.item r, RankingResult.score r,
                         RankingResult.confidence r)) ys ! i
        = map (\<lambda>r. (RankingResult.item r, RankingResult.score r,
                        RankingResult.confidence r)) xs ! i" by (simp add: ys_def)
  qed
  show "length ys = length xs" by (simp add: ys_def)
qed

lemma record_of_initial:
  assumes "reachable s" and "''__proto__'' \<notin> set (initialItems s)" and "k \<in> set (initialItems s)"
  shows "lookup s k = Record (record_of s k)" and "ItemData.item (record_of s k) = k"
proof -
  from assms(1) have "session_inv s" by (rule reachable_inv)
  then have st: "store_inv s" by (simp add: session_inv_def)
  from assms(3) store_inv_no_proto(1) [OF st assms(2)] have "k \<in> fst ` set (items s)"
    by (metis set_map)
  then obtain d where "(k, d) \<in> set (items s)" by auto
  from record_of_member [OF st this]
  show "lookup s k = Record (record_of s k)" and "ItemData.item (record_of s k) = k" by simp_all
qed

text \<open>
  In a session whose store holds every item, the report has one entry per item, with
  the identifier, the normalised score of the specification and the confidence; the
  ranks are 1 to \<open>n\<close> in the order of the list, and the scores descend along it.
\<close>

lemma getRankings_report:
  assumes "reachable s" and "''__proto__'' \<notin> set (initialItems s)"
  shows "length (getRankings s) = length (initialItems s)"
    and "map rank (getRankings s) = [1..<Suc (length (initialItems s))]"
    and "sorted_wrt (\<lambda>a b. RankingResult.score a \<ge> RankingResult.score b) (getRankings s)"
    and "mset (map (\<lambda>r. (RankingResult.item r, RankingResult.score r, RankingResult.confidence r))
                   (getRankings s))
         = mset (map (\<lambda>k. (k, spec_normScore s k, ItemData.confidence (record_of s k)))
                     (initialItems s))"
proof -
  let ?scores = "map ItemData.score (Object_values (items s))"
  let ?mk = "\<lambda>d. \<lparr>RankingResult.item = ItemData.item d,
                RankingResult.score =
                  (if scoreRange_positive ?scores then normalizedScore ?scores (ItemData.score d)
                   else 1 / 2),
                rank = 0, RankingResult.confidence = ItemData.confidence d\<rparr>"
  let ?triple = "\<lambda>r. (RankingResult.item r, RankingResult.score r, RankingResult.confidence r)"
  let ?sorted = "sort_key (\<lambda>r. - RankingResult.score r) (map ?mk (Object_values (items s)))"
  from assms(1) have "session_inv s" by (rule reachable_inv)
  then have st: "store_inv s" by (simp add: session_inv_def)
  have g: "getRankings s
      = map (\<lambda>e. (fst e)\<lparr>rank := snd e + 1\<rparr>) (zip ?sorted [0..<length ?sorted])"
    by (simp add: getRankings_def Let_def)
  have len: "length ?sorted = length (initialItems s)"
    using arg_cong [OF store_inv_no_proto(1) [OF st assms(2)], of length]
    by (simp add: length_Object_values)
  from with_ranks(3) [of ?sorted] len
  show "length (getRankings s) = length (initialItems s)" unfolding g by simp
  from with_ranks(1) [of ?sorted] len
  show "map rank (getRankings s) = [1..<Suc (length (initialItems s))]" unfolding g by simp
  have tr: "map ?triple (getRankings s) = map ?triple ?sorted"
    unfolding g by (rule with_ranks(2))
  have "map RankingResult.score (getRankings s) = map (\<lambda>t. fst (snd t)) (map ?triple (getRankings s))"
    by simp
  also have "\<dots> = map (\<lambda>t. fst (snd t)) (map ?triple ?sorted)" unfolding tr ..
  also have "\<dots> = map RankingResult.score ?sorted" by simp
  finally have sc: "map RankingResult.score (getRankings s) = map RankingResult.score ?sorted" .
  have "sorted (map (\<lambda>r. - RankingResult.score r) ?sorted)" by (rule sorted_sort_key)
  then have "sorted_wrt (\<lambda>a b. a \<ge> b) (map RankingResult.score ?sorted)"
    by (simp add: sorted_wrt_map)
  then have "sorted_wrt (\<lambda>a b. a \<ge> b) (map RankingResult.score (getRankings s))"
    unfolding sc .
  then show "sorted_wrt (\<lambda>a b. RankingResult.score a \<ge> RankingResult.score b) (getRankings s)"
    by (simp add: sorted_wrt_map)
  have "mset (map ?triple (getRankings s)) = image_mset ?triple (mset ?sorted)"
    unfolding tr by simp
  also have "\<dots> = image_mset ?triple (image_mset ?mk (mset (Object_values (items s))))"
    by simp
  also have "\<dots> = image_mset ?triple (image_mset ?mk (mset (map (record_of s) (initialItems s))))"
    unfolding mset_Object_values store_inv_records [OF st assms(2)] ..
  also have "\<dots> = mset (map (\<lambda>k. ?triple (?mk (record_of s k))) (initialItems s))"
    by (simp add: multiset.map_comp comp_def)
  also have "\<dots> = mset (map (\<lambda>k. (k, spec_normScore s k, ItemData.confidence (record_of s k)))
                          (initialItems s))"
  proof -
    have "?triple (?mk (record_of s k))
            = (k, spec_normScore s k, ItemData.confidence (record_of s k))"
      if "k \<in> set (initialItems s)" for k
      using record_of_initial(2) [OF assms that] norm_agrees [OF assms, of k] by simp
    then have "map (\<lambda>k. ?triple (?mk (record_of s k))) (initialItems s)
        = map (\<lambda>k. (k, spec_normScore s k, ItemData.confidence (record_of s k))) (initialItems s)"
      by (intro map_cong) simp_all
    then show ?thesis by (rule arg_cong)
  qed
  finally show "mset (map ?triple (getRankings s))
         = mset (map (\<lambda>k. (k, spec_normScore s k, ItemData.confidence (record_of s k)))
                     (initialItems s))" .
qed

lemma constructor_proto: "constructor [''__proto__'', ''a'', ''b''] no_options = Inr session_proto"
  by (simp add: constructor_def reset_def new_Set_def Set_add_def assign_def
      build_allPairs_def session_proto_def upt_rec)

text \<open>
  Claim C8. Where every item is an own property of the rating store the report is as
  claimed (\<open>getRankings_report\<close>). But the store is a plain object, and the assignment
  \<^verbatim>\<open>this.items['__proto__'] = {...}\<close> of \<open>reset\<close> sets the prototype of the object
  instead of creating a property, so \<^verbatim>\<open>Object.values\<close> never yields that record: the
  session of \<open>__proto__\<close>, \<open>a\<close> and \<open>b\<close> has three items, the record of \<open>__proto__\<close> is found by
  \<open>submitComparison\<close>, and the report has the two entries of \<open>a\<close> and \<open>b\<close>.
\<close>

theorem getRankings_without_proto:
  "constructor [''__proto__'', ''a'', ''b''] no_options = Inr session_proto
   \<and> initialItems session_proto = [''__proto__'', ''a'', ''b'']
   \<and> lookup session_proto ''__proto__''
       = Record \<lparr>item = ''__proto__'', score = 1200, confidence = 0, comparisons = 0\<rparr>
   \<and> getRankings session_proto =
       [\<lparr>RankingResult.item = ''a'', score = 1 / 2, rank = 1, confidence = 0\<rparr>,
        \<lparr>RankingResult.item = ''b'', score = 1 / 2, rank = 2, confidence = 0\<rparr>]"
proof -
  have i: "initialItems session_proto = [''__proto__'', ''a'', ''b'']"
    by (simp add: session_proto_def)
  have l: "lookup session_proto ''__proto__''
       = Record \<lparr>item = ''__proto__'', score = 1200, confidence = 0, comparisons = 0\<rparr>"
    by (simp add: session_proto_def lookup_def fresh_def)
  have g: "getRankings session_proto =
       [\<lparr>RankingResult.item = ''a'', score = 1 / 2, rank = 1, confidence = 0\<rparr>,
        \<lparr>RankingResult.item = ''b'', score = 1 / 2, rank = 2, confidence = 0\<rparr>]"
    by (simp add: getRankings_def session_proto_def Object_values_def is_array_index_def
        is_digit_def fresh_def scoreRange_positive_def minScore_def maxScore_def upt_rec)
  from constructor_proto i l g show ?thesis by simp
qed

section \<open>The scheduler\<close>

















section \<open>Sessions without key collisions\<close>

text \<open>The pairs of \<open>x # xs\<close>: \<open>x\<close> with every later identifier, then the pairs of \<open>xs\<close>.\<close>

lemma build_allPairs_Cons:
  "build_allPairs (x # xs) = map (\<lambda>y. \<lparr>itemA = x, itemB = y\<rparr>) xs @ build_allPairs xs"
proof -
  let ?n = "length xs"
  let ?G = "\<lambda>i. map (\<lambda>j. \<lparr>itemA = (x # xs) ! i, itemB = (x # xs) ! j\<rparr>) [Suc i..<Suc ?n]"
  have "[0..<Suc ?n] = 0 # [Suc 0..<Suc ?n]" by (rule upt_conv_Cons) simp
  then have u: "[0..<Suc ?n] = 0 # map Suc [0..<?n]" by (simp only: map_Suc_upt)
  have g0: "?G 0 = map (\<lambda>y. \<lparr>itemA = x, itemB = y\<rparr>) xs"
  proof -
    have "?G 0 = map (\<lambda>j. \<lparr>itemA = x, itemB = (x # xs) ! j\<rparr>) (map Suc [0..<?n])"
      by (simp add: map_Suc_upt del: upt_Suc)
    also have "\<dots> = map (\<lambda>y. \<lparr>itemA = x, itemB = y\<rparr>) (map (\<lambda>j. xs ! j) [0..<?n])"
      by simp
    also have "\<dots> = map (\<lambda>y. \<lparr>itemA = x, itemB = y\<rparr>) xs" by (simp only: map_nth)
    finally show ?thesis .
  qed
  have gS: "?G (Suc i) = map (\<lambda>j. \<lparr>itemA = xs ! i, itemB = xs ! j\<rparr>) [Suc i..<?n]" for i
  proof -
    have "?G (Suc i) = map (\<lambda>j. \<lparr>itemA = xs ! i, itemB = (x # xs) ! j\<rparr>) (map Suc [Suc i..<?n])"
      by (simp add: map_Suc_upt del: upt_Suc)
    then show ?thesis by simp
  qed
  have "build_allPairs (x # xs) = concat (map ?G [0..<Suc ?n])"
    unfolding build_allPairs_eq by simp
  also have "\<dots> = ?G 0 @ concat (map (\<lambda>i. ?G (Suc i)) [0..<?n])"
    unfolding u by (simp add: comp_def)
  also have "\<dots> = map (\<lambda>y. \<lparr>itemA = x, itemB = y\<rparr>) xs @ build_allPairs xs"
    unfolding g0 gS build_allPairs_eq ..
  finally show ?thesis .
qed

lemma build_allPairs_items:
  "p \<in> set (build_allPairs xs) \<Longrightarrow> itemA p \<in> set xs \<and> itemB p \<in> set xs"
  by (auto simp: in_build_allPairs)

text \<open>Distinct identifiers without the character \<open>|\<close> give pairwise distinct keys.\<close>

lemma distinct_pair_keys:
  assumes "distinct xs" and "\<forall>k \<in> set xs. CHR ''|'' \<notin> set k"
  shows "distinct (map pair_key (build_allPairs xs))"
  using assms
proof (induction xs)
  case Nil
  show ?case by (simp add: build_allPairs_def)
next
  case (Cons x xs)
  from Cons.prems have x: "x \<notin> set xs" "CHR ''|'' \<notin> set x" and d: "distinct xs"
    and b: "\<forall>k \<in> set xs. CHR ''|'' \<notin> set k" by simp_all
  have inj: "inj_on (getPairKey x) (set xs)"
  proof (rule inj_onI)
    fix y z assume "y \<in> set xs" "z \<in> set xs" "getPairKey x y = getPairKey x z"
    with b x(2) getPairKey_inj [of x y x z] show "y = z" by auto
  qed
  have first: "distinct (map (getPairKey x) xs)"
    using d inj by (simp add: distinct_map)
  have rest: "distinct (map pair_key (build_allPairs xs))"
    using d b by (rule Cons.IH)
  have disjoint: "getPairKey x y \<noteq> pair_key p" if "y \<in> set xs" "p \<in> set (build_allPairs xs)" for y p
  proof
    assume eq: "getPairKey x y = pair_key p"
    from build_allPairs_items [OF that(2)] have ab: "itemA p \<in> set xs" "itemB p \<in> set xs"
      by simp_all
    with b that(1) x(2) eq getPairKey_inj [of x y "itemA p" "itemB p"]
    have "x = itemA p \<or> x = itemB p" by (auto simp: pair_key_def)
    with ab x(1) show False by auto
  qed
  have "map pair_key (build_allPairs (x # xs))
      = map (getPairKey x) xs @ map pair_key (build_allPairs xs)"
    by (simp add: build_allPairs_Cons pair_key_def comp_def)
  with first rest disjoint show ?case by auto
qed

text \<open>
  Hence the completion predicate is the one of the specification in every reachable
  session none of whose identifiers contains the character \<open>|\<close> or is \<^verbatim>\<open>__proto__\<close>.
\<close>

lemma isSessionComplete_without_bars:
  assumes "reachable s" and "\<forall>k \<in> set (initialItems s). CHR ''|'' \<notin> set k"
    and "''__proto__'' \<notin> set (initialItems s)"
  shows "isSessionComplete s \<longleftrightarrow>
           (\<forall>p \<in> set (allPairs s). pair_key p \<in> set (comparedPairs s))
           \<or> (\<forall>k \<in> set (initialItems s).
                 ItemData.confidence (record_of s k) \<ge> confidenceThreshold (options s))"
proof -
  from assms(1) have "session_inv s" by (rule reachable_inv)
  then have "distinct (initialItems s)" and "allPairs s = build_allPairs (initialItems s)"
    by (simp_all add: session_inv_def store_inv_def)
  with distinct_pair_keys [OF _ assms(2)] have "distinct (map pair_key (allPairs s))" by simp
  with assms(1) show ?thesis using assms(3) by (rule isSessionComplete_iff)
qed

section \<open>The warning and the confidence of a record\<close>

lemma constructor_warns_iff: "constructor_warns its \<longleftrightarrow> \<not> distinct its"
proof -
  have "length (new_Set its) = length (remdups (rev its))"
    by (simp add: new_Set_first_occurrences)
  moreover have "length (remdups (rev its)) = length (rev its) \<longleftrightarrow> distinct (rev its)"
    by (simp only: length_remdups_eq remdups_id_iff_distinct)
  ultimately show ?thesis by (simp add: constructor_warns_def)
qed

text \<open>The confidence of every record is \<open>1 - 1 / (1 + comparisons)\<close>, in every reachable
  state.\<close>

lemma confidence_of_comparisons:
  assumes "reachable s" and "lookup s k = Record d"
  shows "ItemData.confidence d = 1 - 1 / (1 + real (comparisons d))"
proof -
  let ?P = "\<lambda>d. ItemData.confidence d = 1 - 1 / (1 + real (comparisons d))"
  have "\<forall>k d. lookup s k = Record d \<longrightarrow> ?P d"
    using assms(1)
  proof (induction rule: reachable.induct)
    case (constructed its opts s)
    from constructor_Inr [OF this] obtain s0 where s: "s = reset s0" by blast
    show ?case
    proof (intro allI impI)
      fix k d assume "lookup s k = Record d"
      then have "d = fresh k \<or> d = fresh ''__proto__''"
        unfolding s by (auto simp: lookup_Record_cases map_of_items_reset items_proto_reset
            split: if_splits)
      then show "?P d" by (auto simp: fresh_def)
    qed
  next
    case (after_reset s)
    show ?case
    proof (intro allI impI)
      fix k d assume "lookup (reset s) k = Record d"
      then have "d = fresh k \<or> d = fresh ''__proto__''"
        by (auto simp: lookup_Record_cases map_of_items_reset items_proto_reset
            split: if_splits)
      then show "?P d" by (auto simp: fresh_def)
    qed
  next
    case (after_submit s W L s')
    from after_submit.hyps(2) show ?case
    proof (cases rule: submitComparison_Returns_cases)
      case old
      with after_submit.IH show ?thesis by simp
    next
      case (new w l)
      let ?w = "compared w (kFactor (options s) * (1 - winnerExpected w l))"
      let ?l = "compared l (kFactor (options s) * (0 - (1 - winnerExpected w l)))"
      have pw: "?P ?w" and pl: "?P ?l" by (simp_all add: compared_def)
      have l1: "lookup (put s W ?w) L = Record l"
        using new(1-3) by (intro lookup_put_other) auto
      show ?thesis
      proof (intro allI impI)
        fix k d assume kd: "lookup s' k = Record d"
        then have kd': "lookup (put (put s W ?w) L ?l) k = Record d" unfolding new(5) by simp
        consider "k = L" | "k = W" "k \<noteq> L" | "k \<noteq> W" "k \<noteq> L" by blast
        then show "?P d"
        proof cases
          case 1
          with kd' lookup_put_same [OF l1, of ?l] pl show ?thesis by simp
        next
          case 2
          from lookup_put_same [OF new(1), of ?w] have "lookup (put s W ?w) W = Record ?w" .
          from lookup_put_other [OF _ l1 this, of ?l] 2 kd' pw show ?thesis by simp
        next
          case 3
          have "lookup s k = Record d"
          proof (cases "map_of (items s) k")
            case (Some v)
            then have a: "lookup s k = Record v" by (rule lookup_own)
            from lookup_put_other [OF 3(1) new(1) a, of ?w]
            have "lookup (put s W ?w) k = Record v" .
            from lookup_put_other [OF 3(2) l1 this, of ?l] kd' a show ?thesis by simp
          next
            case None
            have own1: "map_of (items (put s W ?w)) k = map_of (items s) k"
              using 3(1) by (cases "W \<in> fst ` set (items s)")
                (simp_all add: put_own put_proto map_of_replace_other)
            have own2: "map_of (items (put (put s W ?w) L ?l)) k = map_of (items (put s W ?w)) k"
              using 3(2) by (cases "L \<in> fst ` set (items (put s W ?w))")
                (simp_all add: put_own put_proto map_of_replace_other)
            from kd' None own1 own2 have k: "k = ''__proto__''"
              and "items_proto (put (put s W ?w) L ?l) = Some d"
              by (simp_all add: lookup_Record_cases)
            moreover have "items_proto (put (put s W ?w) L ?l) = items_proto s"
            proof -
              have "W \<in> fst ` set (items s)"
              proof (rule ccontr)
                assume "W \<notin> fst ` set (items s)"
                then have "map_of (items s) W = None" by (simp add: map_of_None_iff)
                with new(1) have "W = ''__proto__''" by (simp add: lookup_Record_cases)
                with 3(1) k show False by simp
              qed
              moreover have "L \<in> fst ` set (items (put s W ?w))"
              proof (rule ccontr)
                assume "L \<notin> fst ` set (items (put s W ?w))"
                then have "map_of (items (put s W ?w)) L = None" by (simp add: map_of_None_iff)
                with l1 have "L = ''__proto__''" by (simp add: lookup_Record_cases)
                with 3(2) k show False by simp
              qed
              ultimately show ?thesis by (simp add: put_own)
            qed
            ultimately show ?thesis using None by (simp add: lookup_Record_cases)
          qed
          with after_submit.IH show ?thesis by blast
        qed
      qed
    qed
  next
    case (after_throw s winner loser e s')
    from submitComparison_throws_unchanged [OF after_throw.hyps(2)] after_throw.IH
    show ?case by simp
  qed
  with assms(2) show ?thesis by blast
qed

end
